theory Spec2Isabelle
  imports Complex_Main "HOL-Library.Word" "HOL-Library.Sublist"
begin

unbundle bit_operations_syntax

section \<open>JavaScript values used by the scraper\<close>

text \<open>
  The scraper (\<^verbatim>\<open>src/scraper/scrape.mjs\<close>) exists in two versions, both in the
  source file: version 1 scrapes listing cards from the index page (\<^verbatim>\<open>parseListings\<close>,
  \<^verbatim>\<open>extractListingData\<close>), version 2 scrapes one detail page per listing
  (\<^verbatim>\<open>parseIndexPage\<close>, \<^verbatim>\<open>parseDetailPage\<close>). Functions that exist in both versions
  carry the suffix \<open>_v1\<close> or \<open>_v2\<close>.

  Strings are lists of code units. The model covers code units below 256, which
  is what \<^typ>\<open>char\<close> holds.

  Numbers are the doubles of JavaScript (IEEE 754 binary64): \<open>Num r\<close> is the finite
  double whose value is the rational \<open>r\<close>, and there are the two infinities and
  \<open>NaN\<close>. The two zeros are one number, \<open>Num 0\<close>: the scraper reads no signs, and
  nothing it computes tells the zeros apart.
\<close>

datatype jsnum = NaN | Infinity | NegInfinity | Num rat

text \<open>Truthiness of a number-or-null (\<open>null\<close>, \<open>NaN\<close> and \<open>0\<close> are falsy) and of a
  string-or-null (\<open>null\<close> and the empty string are falsy).\<close>

definition truthy_num :: "jsnum option \<Rightarrow> bool" where
  "truthy_num v = (case v of None \<Rightarrow> False | Some NaN \<Rightarrow> False | Some (Num r) \<Rightarrow> r \<noteq> 0
                   | Some _ \<Rightarrow> True)"

definition truthy_str :: "string option \<Rightarrow> bool" where
  "truthy_str v = (case v of None \<Rightarrow> False | Some s \<Rightarrow> s \<noteq> [])"

text \<open>\<^verbatim>\<open>x > c\<close> for a number-or-null \<open>x\<close> that is already known to be truthy:
  a comparison with \<open>NaN\<close> is false.\<close>

definition num_gt :: "jsnum option \<Rightarrow> rat \<Rightarrow> bool" where
  "num_gt v c = (case v of Some (Num r) \<Rightarrow> r > c | Some Infinity \<Rightarrow> True | _ \<Rightarrow> False)"

subsection \<open>Double arithmetic\<close>

text \<open>\<open>ilog2 n\<close> is the position of the leading bit of \<open>n \<ge> 1\<close>, and \<open>exponent x\<close> the
  binary exponent of a positive rational: \<open>2 ^ exponent x \<le> x < 2 ^ (exponent x + 1)\<close>.\<close>

function ilog2 :: "int \<Rightarrow> int" where
  "ilog2 n = (if n < 2 then 0 else 1 + ilog2 (n div 2))"
  by pat_completeness auto
termination by (relation "measure nat") auto

declare ilog2.simps [simp del]

definition pow2 :: "int \<Rightarrow> rat" where
  "pow2 k = 2 powi k"

definition exponent :: "rat \<Rightarrow> int" where
  "exponent x = (if 1 \<le> x then ilog2 \<lfloor>x\<rfloor> else - (1 + ilog2 (\<lceil>1 / x\<rceil> - 1)))"

text \<open>The nearest integer, the even one of two.\<close>

definition round_half_even :: "rat \<Rightarrow> int" where
  "round_half_even x =
     (if x - of_int \<lfloor>x\<rfloor> < 1 / 2 then \<lfloor>x\<rfloor>
      else if 1 / 2 < x - of_int \<lfloor>x\<rfloor> then \<lfloor>x\<rfloor> + 1
      else if even \<lfloor>x\<rfloor> then \<lfloor>x\<rfloor> else \<lfloor>x\<rfloor> + 1)"

text \<open>The nearest multiple of \<open>2 ^ e\<close>.\<close>

definition round_at :: "int \<Rightarrow> rat \<Rightarrow> rat" where
  "round_at e x = of_int (round_half_even (x / pow2 e)) * pow2 e"

text \<open>A rounded value from \<open>2 ^ 1024\<close> on is \<open>Infinity\<close>.\<close>

definition finite_or_infinity :: "rat \<Rightarrow> jsnum" where
  "finite_or_infinity v = (if 1024 \<le> exponent v then Infinity else Num v)"

text \<open>The double of a positive rational: it is rounded to 53 significant bits, to a
  multiple of \<open>2 ^ - 1074\<close> in the subnormal range, ties to even.\<close>

definition fl_pos :: "rat \<Rightarrow> jsnum" where
  "fl_pos x = finite_or_infinity (round_at (max (exponent x - 52) (- 1074)) x)"

definition negate :: "jsnum \<Rightarrow> jsnum" where
  "negate x = (case x of NaN \<Rightarrow> NaN | Infinity \<Rightarrow> NegInfinity | NegInfinity \<Rightarrow> Infinity
               | Num r \<Rightarrow> Num (- r))"

text \<open>The double nearest to a rational, which is the Number value of a mathematical
  value in ECMAScript.\<close>

definition fl :: "rat \<Rightarrow> jsnum" where
  "fl x = (if x = 0 then Num 0 else if 0 < x then fl_pos x else negate (fl_pos (- x)))"

definition infinity :: "bool \<Rightarrow> jsnum" where
  "infinity negative = (if negative then NegInfinity else Infinity)"

definition is_negative :: "jsnum \<Rightarrow> bool" where
  "is_negative x = (case x of NegInfinity \<Rightarrow> True | Num r \<Rightarrow> r < 0 | _ \<Rightarrow> False)"

text \<open>\<^verbatim>\<open>x * y\<close> and \<^verbatim>\<open>x / y\<close>: the exact result is rounded; a product of zero and an
  infinity and a quotient of two infinities or two zeros are \<open>NaN\<close>. A quotient by
  zero is the infinity with the sign of the dividend, as for the positive zero; the
  scraper divides by truthy numbers only.\<close>

definition js_mul :: "jsnum \<Rightarrow> jsnum \<Rightarrow> jsnum" where
  "js_mul x y =
     (if x = NaN \<or> y = NaN then NaN
      else case (x, y) of
             (Num r, Num s) \<Rightarrow> fl (r * s)
           | _ \<Rightarrow> if x = Num 0 \<or> y = Num 0 then NaN
                  else infinity (is_negative x \<noteq> is_negative y))"

definition js_div :: "jsnum \<Rightarrow> jsnum \<Rightarrow> jsnum" where
  "js_div x y =
     (if x = NaN \<or> y = NaN then NaN
      else case (x, y) of
             (Num r, Num s) \<Rightarrow>
               if s \<noteq> 0 then fl (r / s) else if r = 0 then NaN else infinity (r < 0)
           | (Num r, _) \<Rightarrow> Num 0
           | (_, Num s) \<Rightarrow> infinity (is_negative x \<noteq> (s < 0))
           | _ \<Rightarrow> NaN)"

section \<open>Strings\<close>

text \<open>White space and line terminators as \<^verbatim>\<open>trim\<close> and the pattern \<^verbatim>\<open>\s\<close> know
  them, among the code units below 256: TAB, LF, VT, FF, CR, SP and NBSP.\<close>

definition is_space :: "char \<Rightarrow> bool" where
  "is_space c = (c \<in> set [CHR 0x09, CHR 0x0A, CHR 0x0B, CHR 0x0C, CHR 0x0D, CHR 0x20, CHR 0xA0])"

definition trim :: "string \<Rightarrow> string" where
  "trim s = rev (dropWhile is_space (rev (dropWhile is_space s)))"

text \<open>\<^verbatim>\<open>s.includes(t)\<close>.\<close>

fun str_includes :: "string \<Rightarrow> string \<Rightarrow> bool" where
  "str_includes [] t = (t = [])"
| "str_includes (c # s) t = (prefix t (c # s) \<or> str_includes s t)"

text \<open>\<^verbatim>\<open>s.replace(/[...]/g, '')\<close> for a class of single characters, and
  \<^verbatim>\<open>s.replace(/\s+/g, ' ')\<close>.\<close>

definition remove_chars :: "string \<Rightarrow> string \<Rightarrow> string" where
  "remove_chars cs s = filter (\<lambda>c. c \<notin> set cs) s"

fun collapse_from :: "bool \<Rightarrow> string \<Rightarrow> string" where
  "collapse_from in_run [] = []"
| "collapse_from in_run (c # s) =
     (if is_space c then (if in_run then collapse_from True s else CHR '' '' # collapse_from True s)
      else c # collapse_from False s)"

definition collapse_spaces :: "string \<Rightarrow> string" where
  "collapse_spaces s = collapse_from False s"

definition in_range :: "char \<Rightarrow> char \<Rightarrow> char \<Rightarrow> bool" where
  "in_range lo hi c = ((of_char lo :: nat) \<le> of_char c \<and> (of_char c :: nat) \<le> of_char hi)"

definition is_digit :: "char \<Rightarrow> bool" where
  "is_digit c = in_range (CHR ''0'') (CHR ''9'') c"

text \<open>The characters of \<^verbatim>\<open>\w\<close>.\<close>

definition is_word :: "char \<Rightarrow> bool" where
  "is_word c = (in_range (CHR ''a'') (CHR ''z'') c \<or> in_range (CHR ''A'') (CHR ''Z'') c \<or>
     is_digit c \<or> c = CHR ''_'')"

text \<open>Case conversion of one code unit. Only ASCII letters change: the patterns
  and the texts that are converted hold ASCII letters only.\<close>

definition to_upper :: "char \<Rightarrow> char" where
  "to_upper c = (if in_range (CHR ''a'') (CHR ''z'') c then char_of (of_char c - (32::nat)) else c)"

definition to_lower :: "char \<Rightarrow> char" where
  "to_lower c = (if in_range (CHR ''A'') (CHR ''Z'') c then char_of (of_char c + (32::nat)) else c)"

text \<open>The first-seen order of \<^verbatim>\<open>new Set(xs)\<close>: an element is added unless it is
  already there.\<close>

definition set_add :: "'a list \<Rightarrow> 'a \<Rightarrow> 'a list" where
  "set_add acc x = (if x \<in> set acc then acc else acc @ [x])"

definition new_Set :: "'a list \<Rightarrow> 'a list" where
  "new_Set xs = foldl set_add [] xs"

subsection \<open>Reading numbers\<close>

definition dec_value :: "string \<Rightarrow> int" where
  "dec_value ds = foldl (\<lambda>a c. 10 * a + (of_char c - 48)) 0 ds"

text \<open>\<^verbatim>\<open>parseInt\<close> and \<^verbatim>\<open>parseFloat\<close> on the strings the scraper passes to them,
  which hold digits and dots only (the captures of \<^verbatim>\<open>[\d,]+\<close>, \<^verbatim>\<open>[\d.]+\<close> and
  \<^verbatim>\<open>[\d,.]+\<close> and of \<^verbatim>\<open>[\d,]+(?:\.\d{2})?\<close>, without their commas): the longest
  numeric prefix is read, and \<open>NaN\<close> is returned when there is none. Signs, exponents,
  leading white space and hexadecimal prefixes do not occur and are not modelled.
  The result is the double nearest to the decimal that was read. (For a numeral of
  more than 20 significant digits ECMAScript allows either of two neighbouring
  doubles; Node returns the nearest.)\<close>

definition parseInt :: "string \<Rightarrow> jsnum" where
  "parseInt s = (let ds = takeWhile is_digit s in
     if ds = [] then NaN else fl (of_int (dec_value ds)))"

definition parseFloat :: "string \<Rightarrow> jsnum" where
  "parseFloat s =
     (let ip = takeWhile is_digit s;
          r = dropWhile is_digit s;
          fp = (case r of [] \<Rightarrow> [] | c # r' \<Rightarrow> if c = CHR ''.'' then takeWhile is_digit r' else [])
      in if ip = [] \<and> fp = [] then NaN
         else fl (of_int (dec_value ip) + of_int (dec_value fp) / 10 ^ length fp))"

text \<open>\<^verbatim>\<open>parseFloat(x.toFixed(2))\<close> for a number \<open>x\<close>: \<^verbatim>\<open>toFixed\<close> takes the integer
  \<open>n\<close> with \<open>n / 100\<close> nearest to \<open>\<bar>x\<bar>\<close>, the larger one of two, and writes it with
  two decimals, which \<^verbatim>\<open>parseFloat\<close> reads back as a double. From \<open>10^21\<close> on, and for
  the infinities and \<open>NaN\<close>, \<^verbatim>\<open>toFixed\<close> writes the number as \<^verbatim>\<open>String\<close> does, which
  \<^verbatim>\<open>parseFloat\<close> reads back as the same number.\<close>

definition fixed2 :: "jsnum \<Rightarrow> jsnum" where
  "fixed2 x = (case x of
       Num r \<Rightarrow> if 10 ^ 21 \<le> \<bar>r\<bar> then Num r
                else fl (sgn r * (of_int \<lfloor>\<bar>r\<bar> * 100 + 1 / 2\<rfloor> / 100))
     | _ \<Rightarrow> x)"

section \<open>Documents\<close>

text \<open>
  A parsed document is the tree of its elements and text nodes, as \<^verbatim>\<open>new JSDOM(html)\<close>
  delivers it; parsing itself is not modelled. A document is given by its root
  element. An element has a tag name, attributes (the first of a name counts) and
  children.
\<close>

datatype node = Text string | Element string "(string \<times> string) list" "node list"

fun textContent :: "node \<Rightarrow> string" where
  "textContent (Text s) = s"
| "textContent (Element t as cs) = concat (map textContent cs)"

fun getAttribute :: "node \<Rightarrow> string \<Rightarrow> string option" where
  "getAttribute (Text s) a = None"
| "getAttribute (Element t as cs) a = map_of as a"

fun tag_of :: "node \<Rightarrow> string option" where
  "tag_of (Text s) = None"
| "tag_of (Element t as cs) = Some t"

fun child_nodes :: "node \<Rightarrow> node list" where
  "child_nodes (Text s) = []"
| "child_nodes (Element t as cs) = cs"

text \<open>\<^verbatim>\<open>el.children\<close>: the child elements.\<close>

definition children :: "node \<Rightarrow> node list" where
  "children n = filter (\<lambda>c. tag_of c \<noteq> None) (child_nodes n)"

text \<open>An element together with its ancestors, the parent first.\<close>

type_synonym located = "node \<times> node list"

text \<open>The elements of a subtree in document order, the root included.\<close>

fun elements_from :: "node list \<Rightarrow> node \<Rightarrow> located list" where
  "elements_from ancs (Text s) = []"
| "elements_from ancs (Element t as cs) =
     (Element t as cs, ancs) # concat (map (elements_from (Element t as cs # ancs)) cs)"

subsection \<open>Selectors\<close>

text \<open>The selectors the scraper uses: a tag name, \<^verbatim>\<open>.class\<close>, \<^verbatim>\<open>[attr*="text"]\<close>,
  compounds of these (\<^verbatim>\<open>a[href*="x"]\<close>), one descendant combinator (\<^verbatim>\<open>.gallery img\<close>)
  and comma-separated lists. Class names are compared as written, which is how
  jsdom compares them in a document with a doctype. In a document without one
  (quirks mode) it compares them without regard to letter case; such documents are
  outside the model.\<close>

datatype simple_selector = Tag string | Class string | AttrContains string string

datatype selector = Compound "simple_selector list" | Descendant "simple_selector list" "simple_selector list"

fun tokens :: "string \<Rightarrow> string \<Rightarrow> string list" where
  "tokens cur [] = (if cur = [] then [] else [rev cur])"
| "tokens cur (c # s) =
     (if c \<in> set [CHR 0x09, CHR 0x0A, CHR 0x0C, CHR 0x0D, CHR 0x20]
      then (if cur = [] then tokens [] s else rev cur # tokens [] s)
      else tokens (c # cur) s)"

fun matches_simple :: "simple_selector \<Rightarrow> node \<Rightarrow> bool" where
  "matches_simple (Tag t) n = (tag_of n = Some t)"
| "matches_simple (Class c) n =
     (case getAttribute n ''class'' of None \<Rightarrow> False | Some v \<Rightarrow> c \<in> set (tokens [] v))"
| "matches_simple (AttrContains a v) n =
     (case getAttribute n a of None \<Rightarrow> False | Some w \<Rightarrow> str_includes w v)"

definition matches_compound :: "simple_selector list \<Rightarrow> node \<Rightarrow> bool" where
  "matches_compound c n = (tag_of n \<noteq> None \<and> (\<forall>s \<in> set c. matches_simple s n))"

fun matches :: "selector \<Rightarrow> located \<Rightarrow> bool" where
  "matches (Compound c) (n, ancs) = matches_compound c n"
| "matches (Descendant a c) (n, ancs) = (matches_compound c n \<and> (\<exists>x \<in> set ancs. matches_compound a x))"

text \<open>\<^verbatim>\<open>document.querySelectorAll\<close> and \<^verbatim>\<open>document.querySelector\<close>, on the root element.\<close>

definition doc_querySelectorAll :: "node \<Rightarrow> selector list \<Rightarrow> located list" where
  "doc_querySelectorAll doc sels = filter (\<lambda>e. \<exists>s \<in> set sels. matches s e) (elements_from [] doc)"

definition doc_querySelector :: "node \<Rightarrow> selector list \<Rightarrow> located option" where
  "doc_querySelector doc sels = (case doc_querySelectorAll doc sels of [] \<Rightarrow> None | e # es \<Rightarrow> Some e)"

text \<open>\<^verbatim>\<open>el.querySelectorAll\<close> and \<^verbatim>\<open>el.querySelector\<close> on an element, for selectors
  without combinators: the descendants of the element, the element itself excluded.\<close>

definition querySelectorAll :: "node \<Rightarrow> simple_selector list list \<Rightarrow> node list" where
  "querySelectorAll el sels =
     filter (\<lambda>n. \<exists>c \<in> set sels. matches_compound c n)
       (concat (map (\<lambda>c. map fst (elements_from [] c)) (child_nodes el)))"

definition querySelector :: "node \<Rightarrow> simple_selector list list \<Rightarrow> node option" where
  "querySelector el sels = (case querySelectorAll el sels of [] \<Rightarrow> None | n # ns \<Rightarrow> Some n)"

text \<open>\<^verbatim>\<open>el.closest(selector)\<close>: the element itself or its nearest ancestor that matches.\<close>

definition closest :: "simple_selector list \<Rightarrow> located \<Rightarrow> node option" where
  "closest c e = find (matches_compound c) (fst e # snd e)"

text \<open>\<^verbatim>\<open>document.body\<close>: the first \<^verbatim>\<open>body\<close> or \<^verbatim>\<open>frameset\<close> child of the \<^verbatim>\<open>html\<close>
  element, \<open>null\<close> when there is none.\<close>

definition doc_body :: "node \<Rightarrow> node option" where
  "doc_body doc =
     (if tag_of doc = Some ''html''
      then find (\<lambda>n. tag_of n = Some ''body'' \<or> tag_of n = Some ''frameset'') (child_nodes doc)
      else None)"

section \<open>Regular expressions\<close>

text \<open>
  The patterns of the scraper use character classes, sequences, alternatives,
  greedy and lazy repetition, capturing groups, the anchors \<^verbatim>\<open>^\<close> and \<^verbatim>\<open>$\<close> and
  the word boundary \<^verbatim>\<open>\b\<close>, some with the flag \<^verbatim>\<open>i\<close>. The matcher below follows
  the backtracking semantics of ECMAScript for these: \<open>rm\<close> lists the states in
  which a match of the pattern from a given state can end, in the order in which
  backtracking tries them, so the head of the list is the match that is found.
\<close>

datatype citem = CLit char | CRange char char | CDigit | CWord | CSpace

fun item_has :: "citem \<Rightarrow> char \<Rightarrow> bool" where
  "item_has (CLit a) c = (c = a)"
| "item_has (CRange lo hi) c = in_range lo hi c"
| "item_has CDigit c = is_digit c"
| "item_has CWord c = is_word c"
| "item_has CSpace c = is_space c"

text \<open>Membership in a class; with the flag \<^verbatim>\<open>i\<close> (\<open>ci\<close>) a character also belongs
  to the class when its upper-case or lower-case form does.\<close>

definition class_has :: "bool \<Rightarrow> citem list \<Rightarrow> char \<Rightarrow> bool" where
  "class_has ci items c =
     (\<exists>i \<in> set items. item_has i c \<or> (ci \<and> (item_has i (to_upper c) \<or> item_has i (to_lower c))))"

text \<open>The dot matches everything but a line terminator.\<close>

definition is_line_terminator :: "char \<Rightarrow> bool" where
  "is_line_terminator c = (c = CHR 0x0A \<or> c = CHR 0x0D)"

text \<open>\<open>RRep min max greedy r\<close> is \<^verbatim>\<open>r{min,max}\<close> (\<open>None\<close> for no upper bound), lazy
  when \<open>greedy\<close> is false; \<open>RGroup n r\<close> is the \<open>n\<close>-th capturing group.\<close>

datatype rx =
    RChars "citem list"
  | RNot "citem list"
  | RDot
  | REmpty
  | RSeq rx rx
  | RAlt rx rx
  | RRep nat "nat option" bool rx
  | RGroup nat rx
  | RBol
  | REol
  | RWordB

text \<open>A state of the matcher: the character before the position (\<open>None\<close> at the
  start of the input), the input from the position on, and the captures so far.\<close>

record mstate =
  prev :: "char option"
  rest :: string
  caps :: "nat \<Rightarrow> string option"

fun groups_of :: "rx \<Rightarrow> nat list" where
  "groups_of (RSeq a b) = groups_of a @ groups_of b"
| "groups_of (RAlt a b) = groups_of a @ groups_of b"
| "groups_of (RRep mn mx g a) = groups_of a"
| "groups_of (RGroup n a) = n # groups_of a"
| "groups_of r = []"

text \<open>Every round of a repetition starts with the captures of its body cleared.\<close>

definition reset :: "rx \<Rightarrow> mstate \<Rightarrow> mstate" where
  "reset a st = st\<lparr>caps := (\<lambda>k. if k \<in> set (groups_of a) then None else caps st k)\<rparr>"

definition step_char :: "(char \<Rightarrow> bool) \<Rightarrow> mstate \<Rightarrow> mstate list" where
  "step_char p st = (case rest st of [] \<Rightarrow> []
     | c # r \<Rightarrow> if p c then [st\<lparr>prev := Some c, rest := r\<rparr>] else [])"

definition word_at :: "char option \<Rightarrow> bool" where
  "word_at c = (case c of None \<Rightarrow> False | Some x \<Rightarrow> is_word x)"

definition next_char :: "mstate \<Rightarrow> char option" where
  "next_char st = (case rest st of [] \<Rightarrow> None | c # r \<Rightarrow> Some c)"

definition capture :: "nat \<Rightarrow> mstate \<Rightarrow> mstate \<Rightarrow> mstate" where
  "capture n st st' =
     st'\<lparr>caps := (caps st')(n \<mapsto> take (length (rest st) - length (rest st')) (rest st))\<rparr>"

fun depth :: "rx \<Rightarrow> nat" where
  "depth (RSeq a b) = Suc (depth a + depth b)"
| "depth (RAlt a b) = Suc (depth a + depth b)"
| "depth (RRep mn mx g a) = Suc (depth a)"
| "depth (RGroup n a) = Suc (depth a)"
| "depth r = 0"

fun rep_min :: "rx \<Rightarrow> nat" where
  "rep_min (RRep mn mx g a) = mn"
| "rep_min r = 0"

text \<open>
  In a repetition, a round that is not required (\<open>mn = 0\<close>) and consumes nothing is
  rejected, as ECMAScript does; required rounds count \<open>mn\<close> down. No round ever ends
  before the position where it started: the first disjunct of the test only makes
  this visible to the termination proof.
\<close>

function rm :: "bool \<Rightarrow> rx \<Rightarrow> mstate \<Rightarrow> mstate list" where
  "rm ci (RChars cs) st = step_char (class_has ci cs) st"
| "rm ci (RNot cs) st = step_char (\<lambda>c. \<not> class_has ci cs c) st"
| "rm ci RDot st = step_char (\<lambda>c. \<not> is_line_terminator c) st"
| "rm ci REmpty st = [st]"
| "rm ci (RSeq a b) st = concat (map (rm ci b) (rm ci a st))"
| "rm ci (RAlt a b) st = rm ci a st @ rm ci b st"
| "rm ci (RGroup n a) st = map (capture n st) (rm ci a st)"
| "rm ci RBol st = (if prev st = None then [st] else [])"
| "rm ci REol st = (if rest st = [] then [st] else [])"
| "rm ci RWordB st = (if word_at (prev st) \<noteq> word_at (next_char st) then [st] else [])"
| "rm ci (RRep mn mx g a) st =
     (if mx = Some 0 then [st]
      else let again = concat (map (\<lambda>st'.
                 if length (rest st) < length (rest st') \<or>
                    (mn = 0 \<and> length (rest st') = length (rest st))
                 then []
                 else rm ci (RRep (mn - 1) (map_option (\<lambda>m. m - 1) mx) g a) st')
               (rm ci a (reset a st)))
           in if mn \<noteq> 0 then again else if g then again @ [st] else st # again)"
  by pat_completeness auto
termination
  by (relation "inv_image (less_than <*lex*> less_than)
        (\<lambda>(ci, r, st). (depth r, rep_min r + length (rest st)))")
     (auto simp: reset_def)

declare rm.simps(11) [simp del]

text \<open>The result of \<^verbatim>\<open>s.match(re)\<close> for a pattern without the flag \<^verbatim>\<open>g\<close>: the
  matched text (index 0) and the captures; a group that took no part in the match
  has no capture (\<open>undefined\<close>).\<close>

record rmatch =
  whole :: string
  groups :: "nat \<Rightarrow> string option"

definition exec_at :: "bool \<Rightarrow> rx \<Rightarrow> char option \<Rightarrow> string \<Rightarrow> rmatch option" where
  "exec_at ci r p s =
     (case rm ci r \<lparr>prev = p, rest = s, caps = (\<lambda>k. None)\<rparr> of
        [] \<Rightarrow> None
      | st' # sts \<Rightarrow> Some \<lparr>whole = take (length s - length (rest st')) s, groups = caps st'\<rparr>)"

text \<open>The match is tried at every position from the left; the first position
  with a match wins.\<close>

fun rx_search :: "bool \<Rightarrow> rx \<Rightarrow> char option \<Rightarrow> string \<Rightarrow> rmatch option" where
  "rx_search ci r p [] = exec_at ci r p []"
| "rx_search ci r p (c # s) =
     (case exec_at ci r p (c # s) of Some m \<Rightarrow> Some m | None \<Rightarrow> rx_search ci r (Some c) s)"

text \<open>A pattern with its flag \<^verbatim>\<open>i\<close>; \<^verbatim>\<open>s.match(re)\<close> and \<^verbatim>\<open>re.test(s)\<close>.\<close>

type_synonym regex = "bool \<times> rx"

definition js_match :: "string \<Rightarrow> regex \<Rightarrow> rmatch option" where
  "js_match s re = rx_search (fst re) (snd re) None s"

definition js_test :: "regex \<Rightarrow> string \<Rightarrow> bool" where
  "js_test re s = (js_match s re \<noteq> None)"

text \<open>A sufficient test that group \<open>n\<close> has a capture after every match of a
  pattern: the group lies on every path through the pattern, outside of any
  repetition, and no later part of the pattern contains it again.\<close>

fun sets_group :: "nat \<Rightarrow> rx \<Rightarrow> bool" where
  "sets_group n (RGroup m a) = (n = m \<or> sets_group n a)"
| "sets_group n (RSeq a b) = (sets_group n b \<or> (sets_group n a \<and> n \<notin> set (groups_of b)))"
| "sets_group n (RAlt a b) = (sets_group n a \<and> sets_group n b)"
| "sets_group n r = False"

subsection \<open>Writing patterns\<close>

fun lit :: "string \<Rightarrow> rx" where
  "lit [] = REmpty"
| "lit [c] = RChars [CLit c]"
| "lit (c # cs) = RSeq (RChars [CLit c]) (lit cs)"

fun seqs :: "rx list \<Rightarrow> rx" where
  "seqs [] = REmpty"
| "seqs [r] = r"
| "seqs (r # rs) = RSeq r (seqs rs)"

fun alts :: "rx list \<Rightarrow> rx" where
  "alts [] = REmpty"
| "alts [r] = r"
| "alts (r # rs) = RAlt r (alts rs)"

definition rplus :: "rx \<Rightarrow> rx" where "rplus r = RRep 1 None True r"
definition rstar :: "rx \<Rightarrow> rx" where "rstar r = RRep 0 None True r"
definition ropt :: "rx \<Rightarrow> rx" where "ropt r = RRep 0 (Some 1) True r"
definition rlazy_plus :: "rx \<Rightarrow> rx" where "rlazy_plus r = RRep 1 None False r"
definition rtimes :: "nat \<Rightarrow> nat \<Rightarrow> rx \<Rightarrow> rx" where "rtimes m n r = RRep m (Some n) True r"

definition c_upper :: citem where "c_upper = CRange (CHR ''A'') (CHR ''Z'')"
definition c_lower :: citem where "c_lower = CRange (CHR ''a'') (CHR ''z'')"
definition c_comma :: citem where "c_comma = CLit (CHR '','')"
definition c_dot :: citem where "c_dot = CLit (CHR ''.'')"
definition rdigit :: rx where "rdigit = RChars [CDigit]"
definition rspaces :: rx where "rspaces = rstar (RChars [CSpace])"
definition rspaces1 :: rx where "rspaces1 = rplus (RChars [CSpace])"
definition rword1 :: rx where "rword1 = rplus (RChars [CWord])"

section \<open>Errors\<close>

text \<open>What the scraper's own code can throw: a \<^verbatim>\<open>TypeError\<close> from a property read on
  \<open>null\<close> or \<open>undefined\<close>, and \<^verbatim>\<open>new Error(message)\<close>. The \<open>catch\<close> of \<^verbatim>\<open>main\<close> maps
  the message to the exit code (lines 457-461 and 932-936).\<close>

datatype js_error = TypeError | Error string

fun message :: "js_error \<Rightarrow> string" where
  "message TypeError = ''Cannot read properties of null''"
| "message (Error m) = m"

definition exit_code :: "js_error \<Rightarrow> nat" where
  "exit_code err = (if str_includes (message err) ''STRUCTURE_CHANGED'' then 2 else 1)"

definition bindE :: "js_error + 'a \<Rightarrow> ('a \<Rightarrow> js_error + 'b) \<Rightarrow> js_error + 'b" where
  "bindE x f = (case x of Inl e \<Rightarrow> Inl e | Inr v \<Rightarrow> f v)"

text \<open>
  Reading capture \<open>i\<close> of a match, where the code goes on to use it as a string
  (\<^verbatim>\<open>m[1].trim()\<close>, \<^verbatim>\<open>m[1].replace(...)\<close>, \<^verbatim>\<open>uuid.slice(...)\<close>). A group that took
  no part in the match reads as \<open>undefined\<close>; the model raises at the read.
\<close>

definition capture_of :: "rmatch \<Rightarrow> nat \<Rightarrow> js_error + string" where
  "capture_of m i = (case groups m i of None \<Rightarrow> Inl TypeError | Some g \<Rightarrow> Inr g)"

text \<open>\<^verbatim>\<open>a || b\<close> on strings-or-null and on match results.\<close>

definition js_or :: "string option \<Rightarrow> string option \<Rightarrow> string option" where
  "js_or a b = (if truthy_str a then a else b)"

definition or_else :: "string option \<Rightarrow> string \<Rightarrow> string" where
  "or_else a d = (case a of None \<Rightarrow> d | Some s \<Rightarrow> if s \<noteq> [] then s else d)"

definition or_match :: "rmatch option \<Rightarrow> rmatch option \<Rightarrow> rmatch option" where
  "or_match a b = (case a of None \<Rightarrow> b | Some m \<Rightarrow> Some m)"

section \<open>The patterns of the scraper\<close>

text \<open>\<^verbatim>\<open>/\/listings\/detail\/([a-f0-9-]+)/\<close>\<close>

definition re_uuid :: regex where
  "re_uuid = (False, seqs [lit ''/listings/detail/'',
     RGroup 1 (rplus (RChars [CRange (CHR ''a'') (CHR ''f''), CRange (CHR ''0'') (CHR ''9''), CLit (CHR ''-'')]))])"

text \<open>\<^verbatim>\<open>/\$[\d,]+(?:\.\d{2})?/\<close>\<close>

definition re_rent_v1 :: regex where
  "re_rent_v1 = (False, seqs [lit ''$'', rplus (RChars [CDigit, c_comma]),
     ropt (seqs [lit ''.'', rtimes 2 2 rdigit])])"

text \<open>\<^verbatim>\<open>/([\d,]+)\s*(?:SF|sq\s*ft|square\s*feet)/i\<close>\<close>

definition re_sqft :: regex where
  "re_sqft = (True, seqs [RGroup 1 (rplus (RChars [CDigit, c_comma])), rspaces,
     alts [lit ''SF'', seqs [lit ''sq'', rspaces, lit ''ft''], seqs [lit ''square'', rspaces, lit ''feet'']]])"

text \<open>\<^verbatim>\<open>/(\d+\s+[A-Za-z0-9\s.,#-]+,\s*[A-Za-z\s]+,\s*[A-Z]{2}\s*\d{5})/\<close>\<close>

definition re_address :: regex where
  "re_address = (False, RGroup 1 (seqs [rplus rdigit, rspaces1,
     rplus (RChars [c_upper, c_lower, CRange (CHR ''0'') (CHR ''9''), CSpace, c_dot, c_comma,
                    CLit (CHR ''#''), CLit (CHR ''-'')]),
     lit '','', rspaces, rplus (RChars [c_upper, c_lower, CSpace]),
     lit '','', rspaces, rtimes 2 2 (RChars [c_upper]), rspaces, rtimes 5 5 rdigit]))"

text \<open>\<^verbatim>\<open>/^(View|Apply|Map|Details)/i\<close>\<close>

definition re_boilerplate_v1 :: regex where
  "re_boilerplate_v1 = (True, seqs [RBol,
     RGroup 1 (alts [lit ''View'', lit ''Apply'', lit ''Map'', lit ''Details''])])"

text \<open>\<^verbatim>\<open>/[A-Z][a-z].{50,500}/\<close>\<close>

definition re_description :: regex where
  "re_description = (False, seqs [RChars [c_upper], RChars [c_lower], rtimes 50 500 RDot])"

text \<open>\<^verbatim>\<open>/available\s*now/i\<close>\<close>

definition re_available_now :: regex where
  "re_available_now = (True, seqs [lit ''available'', rspaces, lit ''now''])"

text \<open>\<^verbatim>\<open>/available\s+(\w+\s+\d{1,2},?\s*\d{4}|\w+\s+\d{4})/i\<close>\<close>

definition re_available_date :: regex where
  "re_available_date = (True, seqs [lit ''available'', rspaces1,
     RGroup 1 (alts [seqs [rword1, rspaces1, rtimes 1 2 rdigit, ropt (lit '',''), rspaces, rtimes 4 4 rdigit],
                     seqs [rword1, rspaces1, rtimes 4 4 rdigit]])])"

text \<open>\<^verbatim>\<open>/commercial\s*type:\s*(\w+)/i\<close>\<close>

definition re_commercial_type_v1 :: regex where
  "re_commercial_type_v1 = (True, seqs [lit ''commercial'', rspaces, lit ''type:'', rspaces, RGroup 1 rword1])"

text \<open>\<^verbatim>\<open>/Commercial\s*Type:\s*(\w+)/i\<close>\<close>

definition re_commercial_type_v2 :: regex where
  "re_commercial_type_v2 = (True, seqs [lit ''Commercial'', rspaces, lit ''Type:'', rspaces, RGroup 1 rword1])"

text \<open>\<^verbatim>\<open>/lease\s*type:\s*([A-Za-z\s]+?)(?:\s*Available|\s*$)/i\<close>\<close>

definition re_lease_type_v1 :: regex where
  "re_lease_type_v1 = (True, seqs [lit ''lease'', rspaces, lit ''type:'', rspaces,
     RGroup 1 (rlazy_plus (RChars [c_upper, c_lower, CSpace])),
     alts [seqs [rspaces, lit ''Available''], seqs [rspaces, REol]]])"

text \<open>\<^verbatim>\<open>/\b(office|retail|industrial|warehouse|mixed[- ]use|medical|flex)\b/i\<close>\<close>

definition re_type_words :: regex where
  "re_type_words = (True, seqs [RWordB,
     RGroup 1 (alts [lit ''office'', lit ''retail'', lit ''industrial'', lit ''warehouse'',
        seqs [lit ''mixed'', RChars [CLit (CHR ''-''), CLit (CHR '' '')], lit ''use''],
        lit ''medical'', lit ''flex'']),
     RWordB])"

text \<open>\<^verbatim>\<open>/\$([\d.]+)\s*\/(?:yr|mo|sf)/i\<close>\<close>

definition re_rent_sf_v1 :: regex where
  "re_rent_sf_v1 = (True, seqs [lit ''$'', RGroup 1 (rplus (RChars [CDigit, c_dot])), rspaces, lit ''/'',
     alts [lit ''yr'', lit ''mo'', lit ''sf'']])"

text \<open>\<^verbatim>\<open>/,\s*([A-Za-z\s]+),\s*[A-Z]{2}/\<close>\<close>

definition re_city :: regex where
  "re_city = (False, seqs [lit '','', rspaces, RGroup 1 (rplus (RChars [c_upper, c_lower, CSpace])),
     lit '','', rspaces, rtimes 2 2 (RChars [c_upper])])"

text \<open>\<^verbatim>\<open>/^(Current|Rental|Apply)/i\<close>\<close>

definition re_boilerplate_v2 :: regex where
  "re_boilerplate_v2 = (True, seqs [RBol, RGroup 1 (alts [lit ''Current'', lit ''Rental'', lit ''Apply''])])"

text \<open>\<^verbatim>\<open>/(?:RENT|Rent)\s*\$?([\d,]+(?:\.\d{2})?)/\<close>\<close>

definition re_rent_v2 :: regex where
  "re_rent_v2 = (False, seqs [alts [lit ''RENT'', lit ''Rent''], rspaces, ropt (lit ''$''),
     RGroup 1 (seqs [rplus (RChars [CDigit, c_comma]), ropt (seqs [lit ''.'', rtimes 2 2 rdigit])])])"

text \<open>\<^verbatim>\<open>/(?:SQUARE FEET|Square Feet|Sq\.?\s*Ft\.?)\s*([\d,]+)/i\<close>\<close>

definition re_sqft_label :: regex where
  "re_sqft_label = (True, seqs [alts [lit ''SQUARE FEET'', lit ''Square Feet'',
        seqs [lit ''Sq'', ropt (lit ''.''), rspaces, lit ''Ft'', ropt (lit ''.'')]],
     rspaces, RGroup 1 (rplus (RChars [CDigit, c_comma]))])"

text \<open>\<^verbatim>\<open>/(?:RENT\s*\/\s*SF|Rent\s*\/\s*SF)\s*\$?([\d,.]+)\s*\/yr/i\<close>\<close>

definition re_rent_sf_label :: regex where
  "re_rent_sf_label = (True, seqs [
     alts [seqs [lit ''RENT'', rspaces, lit ''/'', rspaces, lit ''SF''],
           seqs [lit ''Rent'', rspaces, lit ''/'', rspaces, lit ''SF'']],
     rspaces, ropt (lit ''$''), RGroup 1 (rplus (RChars [CDigit, c_comma, c_dot])), rspaces, lit ''/yr''])"

text \<open>\<^verbatim>\<open>/\$([\d,.]+)\s*\/(?:yr|sf)/i\<close>\<close>

definition re_rent_sf_v2 :: regex where
  "re_rent_sf_v2 = (True, seqs [lit ''$'', RGroup 1 (rplus (RChars [CDigit, c_comma, c_dot])), rspaces,
     lit ''/'', alts [lit ''yr'', lit ''sf'']])"

text \<open>\<^verbatim>\<open>/(?:AVAILABLE|Available)\s+(\d{1,2}\/\d{1,2}\/\d{2,4})/i\<close>\<close>

definition re_available_slashes :: regex where
  "re_available_slashes = (True, seqs [alts [lit ''AVAILABLE'', lit ''Available''], rspaces1,
     RGroup 1 (seqs [rtimes 1 2 rdigit, lit ''/'', rtimes 1 2 rdigit, lit ''/'', rtimes 2 4 rdigit])])"

text \<open>\<^verbatim>\<open>/(?:AVAILABLE|Available)\s+(Now)/i\<close>\<close>

definition re_available_now_v2 :: regex where
  "re_available_now_v2 = (True, seqs [alts [lit ''AVAILABLE'', lit ''Available''], rspaces1,
     RGroup 1 (lit ''Now'')])"

text \<open>\<^verbatim>\<open>/(?:AVAILABLE|Available)\s+(\w+\s+\d{1,2},?\s*\d{4})/i\<close>\<close>

definition re_available_date_v2 :: regex where
  "re_available_date_v2 = (True, seqs [alts [lit ''AVAILABLE'', lit ''Available''], rspaces1,
     RGroup 1 (seqs [rword1, rspaces1, rtimes 1 2 rdigit, ropt (lit '',''), rspaces, rtimes 4 4 rdigit])])"

text \<open>\<^verbatim>\<open>/now/i\<close>\<close>

definition re_now :: regex where
  "re_now = (True, lit ''now'')"

text \<open>\<^verbatim>\<open>/Lease\s*Type:\s*(\w+)/i\<close>\<close>

definition re_lease_type_v2 :: regex where
  "re_lease_type_v2 = (True, seqs [lit ''Lease'', rspaces, lit ''Type:'', rspaces, RGroup 1 rword1])"

text \<open>\<^verbatim>\<open>/Utilities\s*Included:\s*([^\n]+)/i\<close>\<close>

definition re_utilities :: regex where
  "re_utilities = (True, seqs [lit ''Utilities'', rspaces, lit ''Included:'', rspaces,
     RGroup 1 (rplus (RNot [CLit (CHR 0x0A)]))])"

section \<open>Listing records\<close>

text \<open>
  The object returned by \<^verbatim>\<open>extractListingData\<close> (version 1). The source's field
  \<^verbatim>\<open>id\<close> is \<open>lid\<close> and \<^verbatim>\<open>type\<close> is \<open>ptype\<close> here. The coordinates that
  \<^verbatim>\<open>main\<close> adds afterwards from \<^verbatim>\<open>Math.random()\<close> are left out.
\<close>

record listing =
  lid :: string
  title :: string
  address :: "string option"
  city :: "string option"
  ptype :: string
  rent :: "jsnum option"
  sqft :: "jsnum option"
  rentPerSF :: "jsnum option"
  description :: string
  available :: string
  status :: string
  imageUrl :: "string option"
  detailUrl :: string
  applyUrl :: string

text \<open>The object returned by \<^verbatim>\<open>parseDetailPage\<close> (version 2) has three more fields.\<close>

record listing2 = listing +
  leaseType :: "string option"
  utilities :: "string option"
  imageUrls :: "string list"

section \<open>Validation\<close>

text \<open>
  The validator pushes template strings. Each constructor stands for one template
  and carries the values the template interpolates:
  \<^verbatim>\<open>`Listing ${listing.id}: missing address`\<close>, \<^verbatim>\<open>... missing rent\<close>,
  \<^verbatim>\<open>... missing sqft\<close>, \<^verbatim>\<open>... no images found\<close>,
  \<^verbatim>\<open>... suspiciously high rent $${listing.rent}\<close>,
  \<^verbatim>\<open>... suspiciously high sqft ${listing.sqft}\<close>, and for the error
  \<^verbatim>\<open>`Unexpectedly high listing count: ${listings.length}`\<close>.
\<close>

datatype warning =
    MissingAddress string
  | MissingRent string
  | MissingSqft string
  | NoImages string
  | HighRent string "jsnum option"
  | HighSqft string "jsnum option"

datatype verror = HighCount nat

record validation =
  errors :: "verror list"
  warnings :: "warning list"
  valid :: bool

text \<open>The listing a warning names.\<close>

fun warning_id :: "warning \<Rightarrow> string" where
  "warning_id (MissingAddress i) = i"
| "warning_id (MissingRent i) = i"
| "warning_id (MissingSqft i) = i"
| "warning_id (NoImages i) = i"
| "warning_id (HighRent i n) = i"
| "warning_id (HighSqft i n) = i"

text \<open>Body of the first loop of \<^verbatim>\<open>validateListings\<close>, version 1 (lines 320-330).\<close>

definition missing_fields_v1 :: "'a listing_scheme \<Rightarrow> warning list" where
  "missing_fields_v1 l =
     (if \<not> truthy_str (address l) then [MissingAddress (lid l)] else []) @
     (if \<not> truthy_num (rent l) \<and> rent l \<noteq> Some (Num 0) then [MissingRent (lid l)] else []) @
     (if \<not> truthy_num (sqft l) then [MissingSqft (lid l)] else [])"

text \<open>Body of the first loop, version 2 (lines 750-755): one more check.\<close>

definition missing_fields_v2 :: "'a listing_scheme \<Rightarrow> warning list" where
  "missing_fields_v2 l =
     (if \<not> truthy_str (address l) then [MissingAddress (lid l)] else []) @
     (if \<not> truthy_num (rent l) \<and> rent l \<noteq> Some (Num 0) then [MissingRent (lid l)] else []) @
     (if \<not> truthy_num (sqft l) then [MissingSqft (lid l)] else []) @
     (if \<not> truthy_str (imageUrl l) then [NoImages (lid l)] else [])"

text \<open>Body of the second loop (lines 337-344 and 761-768), the same in both versions.\<close>

definition suspicious :: "'a listing_scheme \<Rightarrow> warning list" where
  "suspicious l =
     (if truthy_num (rent l) \<and> num_gt (rent l) 1000000 then [HighRent (lid l) (rent l)] else []) @
     (if truthy_num (sqft l) \<and> num_gt (sqft l) 1000000 then [HighSqft (lid l) (sqft l)] else [])"

text \<open>\<^verbatim>\<open>validateListings\<close>: a loop appends to the array it is given.\<close>

definition push_all :: "('a \<Rightarrow> 'b list) \<Rightarrow> 'a list \<Rightarrow> 'b list \<Rightarrow> 'b list" where
  "push_all body ls acc = fold (\<lambda>l ws. ws @ body l) ls acc"

definition validateListings_v1 :: "'a listing_scheme list \<Rightarrow> validation" where
  "validateListings_v1 listings =
     (let ws1 = push_all missing_fields_v1 listings [];
          es = (if length listings > 200 then [HighCount (length listings)] else []);
          ws2 = push_all suspicious listings ws1
      in \<lparr>errors = es, warnings = ws2, valid = (length es = 0)\<rparr>)"

definition validateListings_v2 :: "'a listing_scheme list \<Rightarrow> validation" where
  "validateListings_v2 listings =
     (let ws1 = push_all missing_fields_v2 listings [];
          es = (if length listings > 200 then [HighCount (length listings)] else []);
          ws2 = push_all suspicious listings ws1
      in \<lparr>errors = es, warnings = ws2, valid = (length es = 0)\<rparr>)"


section \<open>Content hash\<close>

text \<open>
  \<^verbatim>\<open>simpleHash\<close> (lines 465-473 and 940-948, identical). The accumulator is kept a
  32-bit integer by \<^verbatim>\<open>hash |= 0\<close>; the intermediate sums stay far below \<open>2^53\<close>,
  so the arithmetic is that of 32-bit words. \<^verbatim>\<open>toString(36)\<close> writes the signed value.
\<close>

definition hash_step :: "32 word \<Rightarrow> nat \<Rightarrow> 32 word" where
  "hash_step h c = (push_bit 5 h - h) + of_nat c"

definition hash_codes :: "nat list \<Rightarrow> 32 word" where
  "hash_codes cs = fold (\<lambda>c h. hash_step h c) cs 0"

definition digit36 :: "nat \<Rightarrow> char" where
  "digit36 d = (if d < 10 then char_of (48 + d) else char_of (87 + d))"

fun digits36 :: "nat \<Rightarrow> string" where
  "digits36 n = (if n < 36 then [digit36 n] else digits36 (n div 36) @ [digit36 (n mod 36)])"

declare digits36.simps [simp del]

definition toString36 :: "int \<Rightarrow> string" where
  "toString36 i = (if i < 0 then CHR ''-'' # digits36 (nat (- i)) else digits36 (nat i))"

definition charCodeAt :: "char \<Rightarrow> nat" where
  "charCodeAt c = of_char c"

definition simpleHash :: "string \<Rightarrow> string" where
  "simpleHash str = toString36 (sint (hash_codes (map charCodeAt str)))"

section \<open>Version 1: listing cards on the index page\<close>

text \<open>The card's fields, in the order of \<^verbatim>\<open>extractListingData\<close> (lines 155-283).
  \<open>text\<close> is \<^verbatim>\<open>card.textContent\<close>.\<close>

definition extract_rent_v1 :: "string \<Rightarrow> jsnum option" where
  "extract_rent_v1 text =
     (case js_match text re_rent_v1 of None \<Rightarrow> None
      | Some rentMatch \<Rightarrow> Some (parseFloat (remove_chars ''$,'' (whole rentMatch))))"

definition extract_sqft_v1 :: "string \<Rightarrow> js_error + jsnum option" where
  "extract_sqft_v1 text =
     (case js_match text re_sqft of None \<Rightarrow> Inr None
      | Some sqftMatch \<Rightarrow>
          bindE (capture_of sqftMatch 1) (\<lambda>g. Inr (Some (parseInt (remove_chars '','' g)))))"

text \<open>The address and the city are read the same way in both versions.\<close>

definition extract_address :: "string \<Rightarrow> js_error + string option" where
  "extract_address text =
     (case js_match text re_address of None \<Rightarrow> Inr None
      | Some addressMatch \<Rightarrow> bindE (capture_of addressMatch 1) (\<lambda>g. Inr (Some (trim g))))"

definition extract_city :: "string option \<Rightarrow> js_error + string option" where
  "extract_city addr =
     (case addr of None \<Rightarrow> Inr None
      | Some a \<Rightarrow>
          if a = [] then Inr None
          else (case js_match a re_city of None \<Rightarrow> Inr None
                | Some cityMatch \<Rightarrow> bindE (capture_of cityMatch 1) (\<lambda>g. Inr (Some (trim g)))))"

definition detail_link :: "simple_selector list" where
  "detail_link = [Tag ''a'', AttrContains ''href'' ''/listings/detail/'']"

definition extract_title_v1 :: "node \<Rightarrow> string option \<Rightarrow> string \<Rightarrow> string" where
  "extract_title_v1 cardEl addr uuid =
     (let headings = querySelectorAll cardEl [[Tag ''h1''], [Tag ''h2''], [Tag ''h3''], [Tag ''h4''], [Tag ''h5'']];
          title1 = find (\<lambda>hText. 3 < length hText \<and> length hText < 200)
                     (map (\<lambda>h. trim (textContent h)) headings);
          title2 = (if truthy_str title1 then title1
                    else (case querySelector cardEl [detail_link] of None \<Rightarrow> title1
                          | Some detailLink \<Rightarrow>
                              let linkText = trim (textContent detailLink)
                              in if 5 < length linkText \<and> js_match linkText re_boilerplate_v1 = None
                                 then Some linkText else title1))
      in or_else title2 (or_else addr (''Listing '' @ take 8 uuid)))"

definition extract_description_v1 :: "node \<Rightarrow> string" where
  "extract_description_v1 cardEl =
     (let paragraphs = querySelectorAll cardEl [[Tag ''p''], [Class ''description''], [AttrContains ''class'' ''desc'']];
          description = (case find (\<lambda>pText. 30 < length pText \<and> \<not> str_includes pText ''Privacy Policy'')
                                (map (\<lambda>p. trim (textContent p)) paragraphs)
                         of None \<Rightarrow> [] | Some pText \<Rightarrow> pText)
      in if description \<noteq> [] then description
         else (let allText = trim (collapse_spaces (textContent cardEl))
               in case js_match allText re_description of None \<Rightarrow> description
                  | Some descMatch \<Rightarrow>
                      let d = trim (whole descMatch)
                      in if 300 < length d then take 297 d @ ''...'' else d))"

definition extract_available_v1 :: "string \<Rightarrow> js_error + string" where
  "extract_available_v1 text =
     (if js_test re_available_now text then Inr ''Now''
      else (case js_match text re_available_date of None \<Rightarrow> Inr ''Contact for availability''
            | Some dateMatch \<Rightarrow> capture_of dateMatch 1))"

text \<open>\<^verbatim>\<open>s.charAt(0).toUpperCase() + s.slice(1)\<close>\<close>

definition capitalize :: "string \<Rightarrow> string" where
  "capitalize s = (case s of [] \<Rightarrow> [] | c # cs \<Rightarrow> to_upper c # cs)"

text \<open>The loop over \<^verbatim>\<open>typePatterns\<close>: the first pattern that matches decides; the
  group read is group 1 in all three.\<close>

fun first_type :: "regex list \<Rightarrow> string \<Rightarrow> js_error + string" where
  "first_type [] text = Inr ''Commercial''"
| "first_type (pattern # ps) text =
     (case js_match text pattern of None \<Rightarrow> first_type ps text
      | Some m \<Rightarrow> bindE (capture_of m 1) (\<lambda>g. Inr (capitalize (trim g))))"

definition extract_type_v1 :: "string \<Rightarrow> js_error + string" where
  "extract_type_v1 text = first_type [re_commercial_type_v1, re_lease_type_v1, re_type_words] text"

text \<open>\<^verbatim>\<open>rent && sqft ? parseFloat((rent / sqft * 12).toFixed(2)) : null\<close>\<close>

definition derived_rentPerSF :: "jsnum option \<Rightarrow> jsnum option \<Rightarrow> jsnum option" where
  "derived_rentPerSF rent0 sqft0 =
     (if truthy_num rent0 \<and> truthy_num sqft0
      then (case (rent0, sqft0) of
              (Some r, Some a) \<Rightarrow> Some (fixed2 (js_mul (js_div r a) (Num 12)))
            | _ \<Rightarrow> None)
      else None)"

text \<open>\<^verbatim>\<open>parseFloat(undefined)\<close> is \<open>NaN\<close>.\<close>

definition extract_rentPerSF_v1 :: "string \<Rightarrow> jsnum option \<Rightarrow> jsnum option \<Rightarrow> jsnum option" where
  "extract_rentPerSF_v1 text rent0 sqft0 =
     (case js_match text re_rent_sf_v1 of
        Some rentSFMatch \<Rightarrow>
          Some (case groups rentSFMatch 1 of None \<Rightarrow> NaN | Some g \<Rightarrow> parseFloat g)
      | None \<Rightarrow> derived_rentPerSF rent0 sqft0)"

definition image_src :: "node \<Rightarrow> string option" where
  "image_src img = js_or (getAttribute img ''src'') (getAttribute img ''data-src'')"

definition extract_imageUrl_v1 :: "node \<Rightarrow> string option" where
  "extract_imageUrl_v1 cardEl =
     (case querySelector cardEl [[Tag ''img'']] of None \<Rightarrow> None
      | Some img \<Rightarrow>
          (case image_src img of None \<Rightarrow> None
           | Some src \<Rightarrow> if src \<noteq> [] \<and> \<not> str_includes src ''place_holder'' then Some src else None))"

definition make_detailUrl :: "string \<Rightarrow> string" where
  "make_detailUrl uuid = ''https://greyrockcommercial.appfolio.com/listings/detail/'' @ uuid"

definition make_applyUrl :: "string \<Rightarrow> string" where
  "make_applyUrl uuid =
     ''https://greyrockcommercial.appfolio.com/listings/rental_applications/new?listable_uid='' @ uuid @
     ''&source=Website''"

definition status_v1 :: "string \<Rightarrow> string" where
  "status_v1 avail = (if avail = ''Now'' then ''available'' else ''coming-soon'')"

definition extractListingData :: "node \<Rightarrow> string \<Rightarrow> js_error + listing" where
  "extractListingData cardEl uuid =
     (let text = textContent cardEl;
          rent = extract_rent_v1 text
      in bindE (extract_sqft_v1 text) (\<lambda>sqft.
         bindE (extract_address text) (\<lambda>address.
         let title = extract_title_v1 cardEl address uuid;
             description = extract_description_v1 cardEl
         in bindE (extract_available_v1 text) (\<lambda>avail.
            bindE (extract_type_v1 text) (\<lambda>propertyType.
            let rentPerSF = extract_rentPerSF_v1 text rent sqft;
                imageUrl = extract_imageUrl_v1 cardEl
            in bindE (extract_city address) (\<lambda>city.
               Inr \<lparr>lid = uuid, title = title, address = address, city = city,
                    ptype = propertyType, rent = rent, sqft = sqft, rentPerSF = rentPerSF,
                    description = description, available = avail, status = status_v1 avail,
                    imageUrl = imageUrl, detailUrl = make_detailUrl uuid,
                    applyUrl = make_applyUrl uuid\<rparr>))))))"

subsection \<open>Finding the card of a link\<close>

text \<open>\<^verbatim>\<open>findCardContainer\<close> (lines 136-153): at most ten steps up from the parent.\<close>

definition is_container :: "node \<Rightarrow> bool" where
  "is_container current =
     (3 \<le> length (children current) \<and>
      2 \<le> length (querySelectorAll current [[Tag ''a'']]) \<and>
      50 < length (trim (textContent current)))"

fun walk_up :: "nat \<Rightarrow> node list \<Rightarrow> node option" where
  "walk_up 0 ancs = None"
| "walk_up (Suc n) [] = None"
| "walk_up (Suc n) (current # ancs) = (if is_container current then Some current else walk_up n ancs)"

definition findCardContainer :: "located \<Rightarrow> node option" where
  "findCardContainer element = walk_up 10 (snd element)"

definition or_node :: "node option \<Rightarrow> node option \<Rightarrow> node option" where
  "or_node a b = (case a of None \<Rightarrow> b | Some n \<Rightarrow> Some n)"

definition find_card :: "located \<Rightarrow> node option" where
  "find_card link =
     or_node (closest [Class ''listing-item''] link)
       (or_node (closest [AttrContains ''class'' ''listing''] link)
          (or_node (closest [Tag ''li''] link) (findCardContainer link)))"

subsection \<open>The index page\<close>

text \<open>The three phrases that \<^verbatim>\<open>parseListings\<close> and \<^verbatim>\<open>parseIndexPage\<close> look for in
  \<^verbatim>\<open>doc.body.textContent\<close>.\<close>

definition no_vacancies_text :: "string \<Rightarrow> bool" where
  "no_vacancies_text t =
     (str_includes t ''no available properties'' \<or> str_includes t ''No vacancies found'' \<or>
      str_includes t ''no vacancies'')"

definition structure_changed :: js_error where
  "structure_changed = Error ''STRUCTURE_CHANGED: Could not find listing detail links or vacancy status''"

record parsed_v1 =
  listings :: "listing list"
  noVacancies :: bool

text \<open>The body of \<^verbatim>\<open>detailLinks.forEach\<close> (lines 105-130), on the pair of
  \<^verbatim>\<open>seenUUIDs\<close> and \<^verbatim>\<open>listings\<close>. An exception in the body ends the loop.\<close>

definition link_step :: "located \<Rightarrow> string list \<times> listing list \<Rightarrow> js_error + (string list \<times> listing list)" where
  "link_step link st =
     (case getAttribute (fst link) ''href'' of None \<Rightarrow> Inl TypeError
      | Some href \<Rightarrow>
          (case js_match href re_uuid of None \<Rightarrow> Inr st
           | Some uuidMatch \<Rightarrow>
               bindE (capture_of uuidMatch 1) (\<lambda>uuid.
                 if uuid \<in> set (fst st) then Inr st
                 else let seenUUIDs = set_add (fst st) uuid
                      in (case find_card link of None \<Rightarrow> Inr (seenUUIDs, snd st)
                          | Some cardEl \<Rightarrow>
                              bindE (extractListingData cardEl uuid) (\<lambda>listing.
                                Inr (seenUUIDs, snd st @ [listing]))))))"

fun forEach :: "('a \<Rightarrow> 's \<Rightarrow> js_error + 's) \<Rightarrow> 'a list \<Rightarrow> 's \<Rightarrow> js_error + 's" where
  "forEach f [] st = Inr st"
| "forEach f (x # xs) st = bindE (f x st) (forEach f xs)"

definition parseListings :: "node \<Rightarrow> js_error + parsed_v1" where
  "parseListings doc =
     (let detailLinks = doc_querySelectorAll doc [Compound detail_link]
      in if length detailLinks = 0
         then (case doc_body doc of None \<Rightarrow> Inl TypeError
               | Some body \<Rightarrow>
                   if no_vacancies_text (textContent body)
                   then Inr \<lparr>listings = [], noVacancies = True\<rparr>
                   else Inl structure_changed)
         else bindE (forEach link_step detailLinks ([], [])) (\<lambda>st.
                Inr \<lparr>listings = snd st, noVacancies = False\<rparr>))"

section \<open>Version 2: one detail page per listing\<close>

record parsed_v2 =
  uuids :: "string list"
  noVacancies2 :: bool

text \<open>\<^verbatim>\<open>link.getAttribute('href')?.match(re)?.[1]\<close>: \<open>undefined\<close> when a step is missing.\<close>

definition link_uuid :: "node \<Rightarrow> string option" where
  "link_uuid link =
     (case getAttribute link ''href'' of None \<Rightarrow> None
      | Some href \<Rightarrow> (case js_match href re_uuid of None \<Rightarrow> None | Some m \<Rightarrow> groups m 1))"

text \<open>\<^verbatim>\<open>.filter(Boolean)\<close> on strings-or-undefined keeps the non-empty strings.\<close>

definition filter_Boolean :: "string option list \<Rightarrow> string list" where
  "filter_Boolean xs = concat (map (\<lambda>x. case x of None \<Rightarrow> [] | Some u \<Rightarrow> if u \<noteq> [] then [u] else []) xs)"

definition parseIndexPage :: "node \<Rightarrow> js_error + parsed_v2" where
  "parseIndexPage doc =
     (let detailLinks = doc_querySelectorAll doc [Compound detail_link]
      in if length detailLinks = 0
         then (case doc_body doc of None \<Rightarrow> Inl TypeError
               | Some body \<Rightarrow>
                   if no_vacancies_text (textContent body)
                   then Inr \<lparr>uuids = [], noVacancies2 = True\<rparr>
                   else Inl structure_changed)
         else Inr \<lparr>uuids = new_Set (filter_Boolean (map (\<lambda>link. link_uuid (fst link)) detailLinks)),
                   noVacancies2 = False\<rparr>)"

subsection \<open>The detail page\<close>

text \<open>The fields of \<^verbatim>\<open>parseDetailPage\<close> (lines 581-710), in its order.\<close>

definition gallery_images :: "selector list" where
  "gallery_images = [Descendant [Class ''gallery''] [Tag ''img''],
     Descendant [Class ''swipebox''] [Tag ''img''],
     Compound [Tag ''img'', AttrContains ''class'' ''gallery'']]"

definition sources_where :: "(string \<Rightarrow> bool) \<Rightarrow> located list \<Rightarrow> string list" where
  "sources_where keep imgs =
     concat (map (\<lambda>img. case image_src (fst img) of None \<Rightarrow> []
                         | Some src \<Rightarrow> if src \<noteq> [] \<and> keep src then [src] else []) imgs)"

definition extract_imageUrls :: "node \<Rightarrow> string list" where
  "extract_imageUrls doc =
     (let allImgs = doc_querySelectorAll doc gallery_images;
          imageUrls = new_Set (sources_where
             (\<lambda>src. \<not> str_includes src ''large.png'' \<and> \<not> str_includes src ''place_holder'') allImgs)
      in if length imageUrls = 0
         then foldl set_add imageUrls (sources_where
                (\<lambda>src. str_includes src ''images.cdn.appfolio.com'' \<and> \<not> str_includes src ''large.png'')
                (doc_querySelectorAll doc [Compound [Tag ''img'']]))
         else imageUrls)"

definition extract_title_v2 :: "node \<Rightarrow> string \<Rightarrow> string" where
  "extract_title_v2 doc uuid =
     (let headings = doc_querySelectorAll doc [Compound [Tag ''h1''], Compound [Tag ''h2''], Compound [Tag ''h3'']];
          title1 = find (\<lambda>hText. 5 < length hText \<and> length hText < 300 \<and>
                                    js_match hText re_boilerplate_v2 = None)
                     (map (\<lambda>h. trim (textContent (fst h))) headings)
      in or_else title1
           (or_else (map_option (\<lambda>t. trim (textContent (fst t)))
                       (doc_querySelector doc [Compound [Tag ''title'']]))
              (''Listing '' @ take 8 uuid)))"

definition description_markers :: "selector list" where
  "description_markers = [Compound [Class ''listing-detail__description''],
     Compound [AttrContains ''class'' ''listing-detail__description''],
     Compound [Class ''js-listing-description'']]"

definition extract_description_v2 :: "node \<Rightarrow> string" where
  "extract_description_v2 doc =
     (let description = (case doc_querySelector doc description_markers of None \<Rightarrow> []
                         | Some descEl \<Rightarrow> trim (textContent (fst descEl)))
      in if description \<noteq> [] then description
         else foldl (\<lambda>longest pText.
                  if length longest < length pText \<and> \<not> str_includes pText ''Privacy Policy''
                  then pText else longest)
                [] (map (\<lambda>p. trim (textContent (fst p))) (doc_querySelectorAll doc [Compound [Tag ''p'']])))"

definition extract_rent_v2 :: "string \<Rightarrow> js_error + jsnum option" where
  "extract_rent_v2 text =
     (case js_match text re_rent_v2 of None \<Rightarrow> Inr None
      | Some rentMatch \<Rightarrow>
          bindE (capture_of rentMatch 1) (\<lambda>g. Inr (Some (parseFloat (remove_chars '','' g)))))"

definition extract_sqft_v2 :: "string \<Rightarrow> js_error + jsnum option" where
  "extract_sqft_v2 text =
     (case or_match (js_match text re_sqft_label) (js_match text re_sqft) of None \<Rightarrow> Inr None
      | Some sqftMatch \<Rightarrow>
          bindE (capture_of sqftMatch 1) (\<lambda>g. Inr (Some (parseInt (remove_chars '','' g)))))"

definition extract_rentPerSF_v2 :: "string \<Rightarrow> js_error + jsnum option" where
  "extract_rentPerSF_v2 text =
     (case or_match (js_match text re_rent_sf_label) (js_match text re_rent_sf_v2) of None \<Rightarrow> Inr None
      | Some rentSFMatch \<Rightarrow>
          bindE (capture_of rentSFMatch 1) (\<lambda>g. Inr (Some (parseFloat (remove_chars '','' g)))))"

definition extract_available_v2 :: "string \<Rightarrow> js_error + string" where
  "extract_available_v2 text =
     (case or_match (js_match text re_available_slashes)
             (or_match (js_match text re_available_now_v2) (js_match text re_available_date_v2))
      of None \<Rightarrow> Inr ''Contact for availability''
       | Some availMatch \<Rightarrow> bindE (capture_of availMatch 1) (\<lambda>g. Inr (trim g)))"

text \<open>\<^verbatim>\<open>let v = d; const m = text.match(re); if (m) v = m[1].trim();\<close>\<close>

definition labelled :: "regex \<Rightarrow> string \<Rightarrow> 'a \<Rightarrow> (string \<Rightarrow> 'a) \<Rightarrow> js_error + 'a" where
  "labelled re text d f =
     (case js_match text re of None \<Rightarrow> Inr d
      | Some m \<Rightarrow> bindE (capture_of m 1) (\<lambda>g. Inr (f (trim g))))"

definition status_v2 :: "string \<Rightarrow> string" where
  "status_v2 avail = (if js_test re_now avail then ''available'' else ''coming-soon'')"

definition parseDetailPage :: "node \<Rightarrow> string \<Rightarrow> js_error + listing2" where
  "parseDetailPage doc uuid =
     (let text = (case doc_body doc of None \<Rightarrow> [] | Some body \<Rightarrow> textContent body);
          imageUrls = extract_imageUrls doc;
          title = extract_title_v2 doc uuid
      in bindE (extract_address text) (\<lambda>address.
         let description = extract_description_v2 doc
         in bindE (extract_rent_v2 text) (\<lambda>rent.
            bindE (extract_sqft_v2 text) (\<lambda>sqft.
            bindE (extract_rentPerSF_v2 text) (\<lambda>rentPerSF.
            bindE (extract_available_v2 text) (\<lambda>avail.
            bindE (labelled re_commercial_type_v2 text ''Commercial'' (\<lambda>g. g)) (\<lambda>propertyType.
            bindE (labelled re_lease_type_v2 text None Some) (\<lambda>leaseType.
            bindE (labelled re_utilities text None Some) (\<lambda>utilities.
            bindE (extract_city address) (\<lambda>city.
              Inr \<lparr>lid = uuid, title = title, address = address, city = city,
                   ptype = propertyType, rent = rent, sqft = sqft, rentPerSF = rentPerSF,
                   description = description, available = avail, status = status_v2 avail,
                   imageUrl = (case imageUrls of [] \<Rightarrow> None | u # us \<Rightarrow> if u \<noteq> [] then Some u else None),
                   detailUrl = make_detailUrl uuid, applyUrl = make_applyUrl uuid,
                   leaseType = leaseType, utilities = utilities, imageUrls = imageUrls\<rparr>))))))))))"

section \<open>The runs\<close>

text \<open>
  What \<^verbatim>\<open>main\<close> does with a fetched index page, up to the validation: the exit
  code of a failed run, or the listings, the flag and the warnings that are
  written. The coordinates from \<^verbatim>\<open>Math.random()\<close>, the hash and the comparison
  with the previous file do not bear on these and are left out.
\<close>

datatype 'a outcome = Exit nat | Written "'a list" bool "warning list"

definition run_v1 :: "node \<Rightarrow> listing outcome" where
  "run_v1 html =
     (case parseListings html of Inl err \<Rightarrow> Exit (exit_code err)
      | Inr parsed \<Rightarrow>
          let validation = validateListings_v1 (listings parsed)
          in if \<not> valid validation then Exit 3
             else Written (listings parsed) (noVacancies parsed) (warnings validation))"

text \<open>
  Version 2 fetches the detail page of every identifier; \<open>fetch\<close> stands for
  \<^verbatim>\<open>fetchWithRetry\<close> followed by the parser and gives the document or the error
  thrown. A listing whose page cannot be fetched or parsed is skipped (lines 806-829).
\<close>

definition detail_listings :: "(string \<Rightarrow> js_error + node) \<Rightarrow> string list \<Rightarrow> listing2 list" where
  "detail_listings fetch us =
     push_all (\<lambda>uuid. case bindE (fetch uuid) (\<lambda>detailHtml. parseDetailPage detailHtml uuid) of
                        Inl err \<Rightarrow> [] | Inr listing \<Rightarrow> [listing]) us []"

definition run_v2 :: "(string \<Rightarrow> js_error + node) \<Rightarrow> node \<Rightarrow> listing2 outcome" where
  "run_v2 fetch indexHtml =
     (case parseIndexPage indexHtml of Inl err \<Rightarrow> Exit (exit_code err)
      | Inr parsed \<Rightarrow>
          if noVacancies2 parsed \<or> length (uuids parsed) = 0 then Written [] True []
          else let ls = detail_listings fetch (uuids parsed)
               in if length ls = 0
                  then Exit (exit_code (Error ''No listings could be parsed from detail pages''))
                  else let validation = validateListings_v2 ls
                       in if \<not> valid validation then Exit 3
                          else Written ls False (warnings validation))"

section \<open>Examples and auxiliary notions\<close>

text \<open>The warnings of a validation result that name a given listing.\<close>

definition warnings_about :: "string \<Rightarrow> validation \<Rightarrow> warning list" where
  "warnings_about i v = filter (\<lambda>w. warning_id w = i) (warnings v)"

text \<open>A record with neither address nor rent nor image, and 1200 square feet.\<close>

definition rec0 :: listing where
  "rec0 = \<lparr>lid = ''ab12'', title = ''Suite Aa'', address = None, city = None,
     ptype = ''Commercial'', rent = None, sqft = Some (Num 1200), rentPerSF = None,
     description = [], available = ''Contact for availability'', status = ''coming-soon'',
     imageUrl = None, detailUrl = [], applyUrl = []\<rparr>"

text \<open>A document with the given body content.\<close>

definition page :: "node list \<Rightarrow> node" where
  "page body_nodes = Element ''html'' [] [Element ''head'' [] [], Element ''body'' [] body_nodes]"

text \<open>A fetch that always fails.\<close>

definition no_fetch :: "string \<Rightarrow> js_error + node" where
  "no_fetch uuid = Inl (Error ''HTTP 404: Not Found'')"

text \<open>A card that holds nothing but a link.\<close>

definition bare_card :: node where
  "bare_card = Element ''li'' [] [Element ''a'' [(''href'', ''/listings/detail/ab12cd34ef'')] [Text ''View'']]"

text \<open>Rounding to two decimals as the specification words it, \<open>round(x, 2)\<close>: the nearest multiple of \<open>1/100\<close>, halves upwards.\<close>

definition spec_round2 :: "rat \<Rightarrow> rat" where
  "spec_round2 x = of_int (round (x * 100)) / 100"

text \<open>The match of a stated rate per square foot in version 2: the labelled pattern, else the plain one.\<close>

definition stated_rate_v2 :: "string \<Rightarrow> rmatch option" where
  "stated_rate_v2 t = or_match (js_match t re_rent_sf_label) (js_match t re_rent_sf_v2)"

text \<open>The text of the body, as \<^verbatim>\<open>parseDetailPage\<close> reads it.\<close>

definition body_text :: "node \<Rightarrow> string" where
  "body_text doc = (case doc_body doc of None \<Rightarrow> [] | Some body \<Rightarrow> textContent body)"

text \<open>The detail links of an index page, and their identifiers in document order.\<close>

definition anchors :: "node \<Rightarrow> located list" where
  "anchors doc = doc_querySelectorAll doc [Compound detail_link]"

definition ids_of :: "located list \<Rightarrow> string list" where
  "ids_of links = concat (map (\<lambda>link. case link_uuid (fst link) of None \<Rightarrow> [] | Some u \<Rightarrow> [u]) links)"

definition anchor_ids :: "node \<Rightarrow> string list" where
  "anchor_ids doc = ids_of (anchors doc)"

text \<open>The position of the first occurrence of an element, and the lists in which elements are ordered by their first occurrence in \<open>xs\<close>.\<close>

definition first_index :: "'a list \<Rightarrow> 'a \<Rightarrow> nat" where
  "first_index xs x = length (takeWhile (\<lambda>y. y \<noteq> x) xs)"

definition first_seen_order :: "'a list \<Rightarrow> 'a list \<Rightarrow> bool" where
  "first_seen_order xs ys = sorted_wrt (\<lambda>u v. first_index xs u < first_index xs v) ys"

text \<open>The identifiers for whose first link a card is found.\<close>

definition carded :: "located list \<Rightarrow> string \<Rightarrow> bool" where
  "carded links u = (case find (\<lambda>link. link_uuid (fst link) = Some u) links of
      None \<Rightarrow> False | Some link \<Rightarrow> find_card link \<noteq> None)"

definition has_card :: "node \<Rightarrow> string \<Rightarrow> bool" where
  "has_card doc u = carded (anchors doc) u"

text \<open>An index page with two cards; the first card has two links to the same listing.\<close>

definition two_links :: node where
  "two_links = page [Element ''ul'' [] [
     Element ''li'' [] [Element ''a'' [(''href'', ''/listings/detail/ab12'')] [Text ''x''],
                        Element ''a'' [(''href'', ''/listings/detail/ab12'')] [Text ''y'']],
     Element ''li'' [] [Element ''a'' [(''href'', ''/listings/detail/cd34'')] [Text ''z'']]]]"

text \<open>The characters that a match of a pattern can consume.\<close>

fun chars_of :: "bool \<Rightarrow> rx \<Rightarrow> char set" where
  "chars_of ci (RChars cs) = {c. class_has ci cs c}"
| "chars_of ci (RNot cs) = {c. \<not> class_has ci cs c}"
| "chars_of ci RDot = {c. \<not> is_line_terminator c}"
| "chars_of ci (RSeq a b) = chars_of ci a \<union> chars_of ci b"
| "chars_of ci (RAlt a b) = chars_of ci a \<union> chars_of ci b"
| "chars_of ci (RRep mn mx g a) = chars_of ci a"
| "chars_of ci (RGroup n a) = chars_of ci a"
| "chars_of ci r = {}"

text \<open>The availability of a detail page is a worded date when \<^verbatim>\<open>parseDetailPage\<close> reads
  it with the last of its three patterns, the one for a word followed by a day and
  a year; otherwise it is the token, a date written with slashes, or the default.\<close>

definition worded_date_v2 :: "string \<Rightarrow> bool" where
  "worded_date_v2 t = (js_match t re_available_slashes = None \<and> js_match t re_available_now_v2 = None \<and>
     js_match t re_available_date_v2 \<noteq> None)"

section \<open>Equations for evaluation\<close>

text \<open>The character tests and the case conversions, computed from the bits of the
  character instead of its code: these equations make the evaluation of the matcher
  on a concrete text fast.\<close>

lemma in_range_bits:
  "in_range (CHR ''0'') (CHR ''9'') (Char b0 b1 b2 b3 b4 b5 b6 b7) =
     (b4 \<and> b5 \<and> \<not> b6 \<and> \<not> b7 \<and> (\<not> b3 \<or> (\<not> b2 \<and> \<not> b1)))"
  "in_range (CHR ''a'') (CHR ''z'') (Char b0 b1 b2 b3 b4 b5 b6 b7) =
     (b5 \<and> b6 \<and> \<not> b7 \<and> (b0 \<or> b1 \<or> b2 \<or> b3 \<or> b4) \<and> \<not> (b4 \<and> b3 \<and> (b2 \<or> (b1 \<and> b0))))"
  "in_range (CHR ''A'') (CHR ''Z'') (Char b0 b1 b2 b3 b4 b5 b6 b7) =
     (\<not> b5 \<and> b6 \<and> \<not> b7 \<and> (b0 \<or> b1 \<or> b2 \<or> b3 \<or> b4) \<and> \<not> (b4 \<and> b3 \<and> (b2 \<or> (b1 \<and> b0))))"
  "in_range (CHR ''a'') (CHR ''f'') (Char b0 b1 b2 b3 b4 b5 b6 b7) =
     (b5 \<and> b6 \<and> \<not> b7 \<and> \<not> b4 \<and> \<not> b3 \<and> (b0 \<or> b1 \<or> b2) \<and> \<not> (b2 \<and> b1 \<and> b0))"
  by (cases b0; cases b1; cases b2; cases b3; cases b4; cases b5; cases b6; cases b7;
      simp add: in_range_def)+

lemma to_upper_bits:
  "to_upper (Char b0 b1 b2 b3 b4 b5 b6 b7) =
     (if in_range (CHR ''a'') (CHR ''z'') (Char b0 b1 b2 b3 b4 b5 b6 b7)
      then Char b0 b1 b2 b3 b4 False b6 b7 else Char b0 b1 b2 b3 b4 b5 b6 b7)"
proof (cases "in_range (CHR ''a'') (CHR ''z'') (Char b0 b1 b2 b3 b4 b5 b6 b7)")
  case False
  then show ?thesis by (simp add: to_upper_def)
next
  case True
  then have b: "b5" "b6" "\<not> b7" by (auto simp: in_range_bits)
  show ?thesis using True unfolding to_upper_def
    by (cases b0; cases b1; cases b2; cases b3; cases b4; simp add: b char_of_def bit_Suc_0_iff)
qed

lemma to_lower_bits:
  "to_lower (Char b0 b1 b2 b3 b4 b5 b6 b7) =
     (if in_range (CHR ''A'') (CHR ''Z'') (Char b0 b1 b2 b3 b4 b5 b6 b7)
      then Char b0 b1 b2 b3 b4 True b6 b7 else Char b0 b1 b2 b3 b4 b5 b6 b7)"
proof (cases "in_range (CHR ''A'') (CHR ''Z'') (Char b0 b1 b2 b3 b4 b5 b6 b7)")
  case False
  then show ?thesis by (simp add: to_lower_def)
next
  case True
  then have b: "\<not> b5" "b6" "\<not> b7" by (auto simp: in_range_bits)
  show ?thesis using True unfolding to_lower_def
    by (cases b0; cases b1; cases b2; cases b3; cases b4; simp add: b char_of_def bit_Suc_0_iff)
qed

declare in_range_bits [code] to_upper_bits [code] to_lower_bits [code]

section \<open>Properties of the validator\<close>

lemma push_all_concat: "push_all body ls acc = acc @ concat (map body ls)"
  unfolding push_all_def by (induction ls arbitrary: acc) simp_all

lemma warnings_v1: "warnings (validateListings_v1 ls) =
    concat (map missing_fields_v1 ls) @ concat (map suspicious ls)"
  by (simp add: validateListings_v1_def push_all_concat)

lemma warnings_v2: "warnings (validateListings_v2 ls) =
    concat (map missing_fields_v2 ls) @ concat (map suspicious ls)"
  by (simp add: validateListings_v2_def push_all_concat)



lemma valid_v1: "valid (validateListings_v1 ls) = (length ls \<le> 200)"
  by (simp add: validateListings_v1_def)

lemma valid_v2: "valid (validateListings_v2 ls) = (length ls \<le> 200)"
  by (simp add: validateListings_v2_def)



lemma filter_concat_unique:
  assumes "distinct (map lid ls)" and "l \<in> set ls"
    and "\<And>l' w. w \<in> set (f l') \<Longrightarrow> warning_id w = lid l'"
  shows "filter (\<lambda>w. warning_id w = lid l) (concat (map f ls)) = f l"
  using assms(1,2)
proof (induction ls)
  case Nil
  then show ?case by simp
next
  case (Cons a ls)
  have other: "filter (\<lambda>w. warning_id w = lid l) (concat (map f ks)) = []"
    if "lid l \<notin> lid ` set ks" for ks
    using that assms(3) by (induction ks) (auto simp: filter_empty_conv)
  have self: "filter (\<lambda>w. warning_id w = lid l) (f l) = f l"
    using assms(3) by (simp add: filter_id_conv)
  show ?case
  proof (cases "a = l")
    case True
    then show ?thesis using Cons.prems self other [of ls] by simp
  next
    case False
    then have "l \<in> set ls" and "lid a \<noteq> lid l" using Cons.prems by auto
    moreover have "filter (\<lambda>w. warning_id w = lid l) (f a) = []"
      using assms(3) [of _ a] \<open>lid a \<noteq> lid l\<close> by (auto simp: filter_empty_conv)
    ultimately show ?thesis using Cons by simp
  qed
qed

lemma missing_fields_v1_id: "w \<in> set (missing_fields_v1 l) \<Longrightarrow> warning_id w = lid l"
  by (auto simp: missing_fields_v1_def split: if_splits)
lemma missing_fields_v2_id: "w \<in> set (missing_fields_v2 l) \<Longrightarrow> warning_id w = lid l"
  by (auto simp: missing_fields_v2_def split: if_splits)
lemma suspicious_id: "w \<in> set (suspicious l) \<Longrightarrow> warning_id w = lid l"
  by (auto simp: suspicious_def split: if_splits)

text \<open>
  Claim C8, amended. In a record set of at most 200 records with distinct ids, a
  record without address, rent and image whose square footage is present and not
  above 1,000,000 leaves the run valid; the warnings that name it are exactly three
  in version 2 (address, rent, image) and exactly two in version 1 (address, rent),
  whose validator does not look at the image.
\<close>

theorem three_missing_fields:
  assumes "length ls \<le> 200" and "distinct (map lid ls)" and "l \<in> set ls"
    and "\<not> truthy_str (address l)" and "rent l = None" and "\<not> truthy_str (imageUrl l)"
    and "truthy_num (sqft l)" and "\<not> num_gt (sqft l) 1000000"
  shows "valid (validateListings_v2 ls) \<and>
         warnings_about (lid l) (validateListings_v2 ls) =
           [MissingAddress (lid l), MissingRent (lid l), NoImages (lid l)] \<and>
         length (warnings_about (lid l) (validateListings_v2 ls)) = 3 \<and>
         valid (validateListings_v1 ls) \<and>
         warnings_about (lid l) (validateListings_v1 ls) =
           [MissingAddress (lid l), MissingRent (lid l)] \<and>
         length (warnings_about (lid l) (validateListings_v1 ls)) = 2"
proof -
  have s: "suspicious l = []"
    using assms by (simp add: suspicious_def truthy_num_def)
  have m2: "missing_fields_v2 l = [MissingAddress (lid l), MissingRent (lid l), NoImages (lid l)]"
    using assms by (simp add: missing_fields_v2_def truthy_num_def)
  have m1: "missing_fields_v1 l = [MissingAddress (lid l), MissingRent (lid l)]"
    using assms by (simp add: missing_fields_v1_def truthy_num_def)
  have "warnings_about (lid l) (validateListings_v2 ls) = missing_fields_v2 l @ suspicious l"
    unfolding warnings_about_def warnings_v2 filter_append
    using filter_concat_unique [OF assms(2,3), of missing_fields_v2] 
      filter_concat_unique [OF assms(2,3), of suspicious]
    by (simp add: missing_fields_v2_id suspicious_id)
  moreover have "warnings_about (lid l) (validateListings_v1 ls) = missing_fields_v1 l @ suspicious l"
    unfolding warnings_about_def warnings_v1 filter_append
    using filter_concat_unique [OF assms(2,3), of missing_fields_v1] 
      filter_concat_unique [OF assms(2,3), of suspicious]
    by (simp add: missing_fields_v1_id suspicious_id)
  ultimately show ?thesis using assms(1) s m1 m2 by (simp add: valid_v1 valid_v2)
qed

text \<open>
  Claim C8 as stated fails for the validator of version 1: for the record \<open>rec0\<close>
  it produces two warnings, not three.
\<close>

theorem three_missing_fields_counterexample:
  "\<not> truthy_str (address rec0) \<and> rent rec0 = None \<and> \<not> truthy_str (imageUrl rec0) \<and>
   truthy_num (sqft rec0) \<and> \<not> num_gt (sqft rec0) 1000000 \<and>
   warnings (validateListings_v1 [rec0]) = [MissingAddress ''ab12'', MissingRent ''ab12''] \<and>
   length (warnings (validateListings_v1 [rec0])) \<noteq> 3"
  by (simp add: warnings_v1 missing_fields_v1_def suspicious_def rec0_def truthy_str_def
      truthy_num_def num_gt_def)

theorem three_missing_fields_witness:
  "valid (validateListings_v2 [rec0]) \<and>
   warnings_about ''ab12'' (validateListings_v2 [rec0]) =
     [MissingAddress ''ab12'', MissingRent ''ab12'', NoImages ''ab12''] \<and>
   length (warnings_about ''ab12'' (validateListings_v2 [rec0])) = 3 \<and>
   length (warnings_about ''ab12'' (validateListings_v1 [rec0])) = 2"
  using three_missing_fields [of "[rec0]" rec0]
  by (simp add: rec0_def truthy_str_def truthy_num_def num_gt_def)

text \<open>
  Claim C10. In both versions the validator's warnings contain "missing rent" for an
  id exactly when some record with that id has a rent that is \<open>null\<close> or \<open>NaN\<close>
  (falsy and not the number 0); a record whose rent is exactly 0 contributes no
  such warning.
\<close>

theorem missing_rent_warning:
  "(MissingRent i \<in> set (warnings (validateListings_v1 ls))) =
     (\<exists>l \<in> set ls. lid l = i \<and> (rent l = None \<or> rent l = Some NaN)) \<and>
   (MissingRent i \<in> set (warnings (validateListings_v2 ls))) =
     (\<exists>l \<in> set ls. lid l = i \<and> (rent l = None \<or> rent l = Some NaN)) \<and>
   (\<forall>l \<in> set ls. rent l = Some (Num 0) \<longrightarrow>
      MissingRent (lid l) \<notin> set (missing_fields_v1 l) \<and>
      MissingRent (lid l) \<notin> set (missing_fields_v2 l))"
proof -
  have absent: "(\<not> truthy_num v \<and> v \<noteq> Some (Num 0)) = (v = None \<or> v = Some NaN)" for v
    by (auto simp: truthy_num_def split: option.splits jsnum.splits)
  have a: "(MissingRent j \<in> set (missing_fields_v1 l)) = (lid l = j \<and> (rent l = None \<or> rent l = Some NaN))"
    for j and l :: "'a listing_scheme"
    unfolding missing_fields_v1_def using absent [of "rent l"] by auto
  have b: "(MissingRent j \<in> set (missing_fields_v2 l)) = (lid l = j \<and> (rent l = None \<or> rent l = Some NaN))"
    for j and l :: "'a listing_scheme"
    unfolding missing_fields_v2_def using absent [of "rent l"] by auto
  have c: "MissingRent i \<notin> set (suspicious l)" for l :: "'a listing_scheme"
    by (simp add: suspicious_def)
  show ?thesis
    by (auto simp: warnings_v1 warnings_v2 a b c)
qed

theorem missing_rent_warning_witness:
  "MissingRent ''ab12'' \<in> set (warnings (validateListings_v1 [rec0, rec0\<lparr>lid := ''cd34'', rent := Some (Num 0)\<rparr>])) \<and>
   MissingRent ''cd34'' \<notin> set (warnings (validateListings_v2 [rec0, rec0\<lparr>lid := ''cd34'', rent := Some (Num 0)\<rparr>]))"
  using missing_rent_warning [of "''ab12''" "[rec0, rec0\<lparr>lid := ''cd34'', rent := Some (Num 0)\<rparr>]"]
    missing_rent_warning [of "''cd34''" "[rec0, rec0\<lparr>lid := ''cd34'', rent := Some (Num 0)\<rparr>]"]
  by (simp add: rec0_def)

section \<open>Properties of the content hash\<close>

lemma hash_step_eq: "hash_step h c = 31 * h + of_nat c"
  by (simp add: hash_step_def push_bit_eq_mult)

lemma hash_step_inj: "hash_step h c = hash_step h' c \<Longrightarrow> h = h'"
proof -
  assume "hash_step h c = hash_step h' c"
  then have "31 * h = 31 * h'" by (simp add: hash_step_eq)
  have inv: "(3186588639 :: 32 word) * 31 = 1" by simp
  have "h = (3186588639 * 31) * h" by (simp only: inv mult_1_left)
  also have "\<dots> = 3186588639 * (31 * h)" by (simp only: mult.assoc)
  also have "\<dots> = 3186588639 * (31 * h')" using \<open>31 * h = 31 * h'\<close> by (simp only:)
  also have "\<dots> = (3186588639 * 31) * h'" by (simp only: mult.assoc)
  also have "\<dots> = h'" by (simp only: inv mult_1_left)
  finally show "h = h'" .
qed

lemma hash_fold_inj:
  "fold (\<lambda>c h. hash_step h c) cs h = fold (\<lambda>c h. hash_step h c) cs h' \<Longrightarrow> h = h'"
  by (induction cs arbitrary: h h') (auto dest: hash_step_inj)

lemma hash_step_char: 
  assumes "c < 2 ^ 32" "c' < 2 ^ 32" "c \<noteq> c'"
  shows "hash_step h c \<noteq> hash_step h c'"
proof
  assume "hash_step h c = hash_step h c'"
  then have "(of_nat c :: 32 word) = of_nat c'" by (simp add: hash_step_eq)
  then have "take_bit 32 c = take_bit 32 c'" 
    by (simp add: word_of_nat_eq_iff)
  then show False using assms by (simp add: take_bit_nat_eq_self)
qed

lemma hash_codes_one_unit:
  assumes "c < 2 ^ 32" "c' < 2 ^ 32" "c \<noteq> c'"
  shows "hash_codes (pre @ c # post) \<noteq> hash_codes (pre @ c' # post)"
  unfolding hash_codes_def using hash_fold_inj hash_step_char [OF assms] by fastforce

lemma digit36_code: "d < 36 \<Longrightarrow> of_char (digit36 d) = (if d < 10 then 48 + d else 87 + d)"
  by (simp add: digit36_def)

lemma digit36_inj: "d < 36 \<Longrightarrow> e < 36 \<Longrightarrow> digit36 d = digit36 e \<Longrightarrow> d = e"
proof -
  assume a: "d < 36" "e < 36" "digit36 d = digit36 e"
  from a(3) have "(of_char (digit36 d) :: nat) = of_char (digit36 e)" by (rule arg_cong)
  then have "(if d < 10 then 48 + d else 87 + d) = (if e < 10 then 48 + e else 87 + e)"
    unfolding digit36_code [OF a(1)] digit36_code [OF a(2)] .
  then show "d = e" using a(1,2) by (simp split: if_splits)
qed

lemma digit36_not_minus: "d < 36 \<Longrightarrow> digit36 d \<noteq> CHR ''-''"
proof 
  assume a: "d < 36" "digit36 d = CHR ''-''"
  from a(2) have "(of_char (digit36 d) :: nat) = of_char (CHR ''-'')" by (rule arg_cong)
  then have "(if d < 10 then 48 + d else 87 + d) = (45::nat)"
    unfolding digit36_code [OF a(1)] by simp
  then show False by (simp split: if_splits)
qed

lemma digits36_nonempty: "digits36 n \<noteq> []"
  by (subst digits36.simps) simp

lemma digits36_last: "last (digits36 n) = digit36 (n mod 36)"
  by (subst digits36.simps) simp

lemma digits36_butlast: "butlast (digits36 n) = (if n < 36 then [] else digits36 (n div 36))"
  by (subst digits36.simps) (simp add: butlast_append)

lemma digits36_inj: "digits36 n = digits36 m \<Longrightarrow> n = m"
proof (induction n arbitrary: m rule: digits36.induct)
  case (1 n)
  have l: "digit36 (n mod 36) = digit36 (m mod 36)"
    using 1(2) digits36_last by metis
  then have md: "n mod 36 = m mod 36" by (auto dest!: digit36_inj [rotated 2])
  have b: "butlast (digits36 n) = butlast (digits36 m)" using 1(2) by simp
  show ?case
  proof (cases "n < 36")
    case True
    then have "m < 36" using b digits36_nonempty [of "m div 36"] by (auto simp: digits36_butlast split: if_splits)
    then show ?thesis using True md by simp
  next
    case False
    then have m: "\<not> m < 36" using b digits36_nonempty [of "n div 36"] by (auto simp: digits36_butlast split: if_splits)
    then have "digits36 (n div 36) = digits36 (m div 36)" using b False by (simp add: digits36_butlast)
    then have "n div 36 = m div 36" using 1(1) False by blast
    then show ?thesis using md by (metis div_mult_mod_eq)
  qed
qed

lemma digits36_hd: "hd (digits36 n) \<noteq> CHR ''-''"
proof (induction n rule: digits36.induct)
  case (1 n)
  show ?case
  proof (cases "n < 36")
    case True
    then show ?thesis by (subst digits36.simps) (simp add: digit36_not_minus)
  next
    case False
    then show ?thesis using 1 digits36_nonempty [of "n div 36"] by (subst digits36.simps) simp
  qed
qed

lemma toString36_inj: "toString36 i = toString36 j \<Longrightarrow> i = j"
proof -
  assume a: "toString36 i = toString36 j"
  have neg: "hd (toString36 k) = CHR ''-'' \<longleftrightarrow> k < 0" for k
    using digits36_hd [of "nat k"] by (simp add: toString36_def)
  have "i < 0 \<longleftrightarrow> j < 0" using a neg by metis
  then show "i = j" using a by (auto simp: toString36_def dest!: digits36_inj)
qed

lemma charCodeAt_inj: "charCodeAt c = charCodeAt c' \<Longrightarrow> c = c'"
  by (simp add: charCodeAt_def)

lemma charCodeAt_bound: "charCodeAt c < 2 ^ 32"
proof -
  have "(of_char c :: nat) < 256" by simp
  also have "(256::nat) < 2 ^ 32" by simp
  finally show ?thesis unfolding charCodeAt_def .
qed

text \<open>
  Claim C9, amended. \<open>simpleHash\<close> is a function of the serialized string, and
  replacing exactly one code unit of the string by a different one changes the
  fingerprint.
\<close>

theorem fingerprint_sensitivity:
  "(s = s' \<longrightarrow> simpleHash s = simpleHash s') \<and>
   (c \<noteq> c' \<longrightarrow> simpleHash (pre @ c # post) \<noteq> simpleHash (pre @ c' # post))"
proof -
  have "simpleHash (pre @ c # post) \<noteq> simpleHash (pre @ c' # post)" if "c \<noteq> c'"
  proof
    assume "simpleHash (pre @ c # post) = simpleHash (pre @ c' # post)"
    then have "hash_codes (map charCodeAt pre @ charCodeAt c # map charCodeAt post) =
               hash_codes (map charCodeAt pre @ charCodeAt c' # map charCodeAt post)"
      by (auto simp: simpleHash_def dest!: toString36_inj signed_word_eqI)
    moreover have "charCodeAt c \<noteq> charCodeAt c'" using that charCodeAt_inj by blast
    ultimately show False using hash_codes_one_unit charCodeAt_bound by blast
  qed
  then show ?thesis by simp
qed


lemma hash_collision: "hash_codes (pre @ map charCodeAt ''Aa'' @ post) = hash_codes (pre @ map charCodeAt ''BB'' @ post)"
  by (simp add: hash_codes_def hash_step_eq charCodeAt_def)

lemma simpleHash_collision: "simpleHash (pre @ ''Aa'' @ post) = simpleHash (pre @ ''BB'' @ post)"
  using hash_collision [of "map charCodeAt pre" "map charCodeAt post"] by (simp add: simpleHash_def)

theorem fingerprint_sensitivity_witness:
  "simpleHash ''[{\"id\":\"ab12\"}]'' \<noteq> simpleHash ''[{\"id\":\"ab13\"}]''"
  using fingerprint_sensitivity [of "''a''" "''a''" "CHR ''2''" "CHR ''3''" "''[{\"id\":\"ab1''" "''\"}]''"]
  by simp

text \<open>
  Claim C9 as stated fails: the hash has 32 bits, and a change of two adjacent
  code units can cancel out. The two serialized record sets below differ in the
  title of their one record only (\<open>Suite Aa\<close> against \<open>Suite BB\<close>) and have the
  same fingerprint.
\<close>

theorem fingerprint_collision_counterexample:
  \<open>simpleHash
     ''[{"id":"ab12","title":"Suite Aa","address":null,"city":null,"type":"Commercial","rent":null,"sqft":null,"rentPerSF":null,"description":"","available":"Contact for availability","status":"coming-soon","imageUrl":null,"detailUrl":"https://greyrockcommercial.appfolio.com/listings/detail/ab12","applyUrl":"https://greyrockcommercial.appfolio.com/listings/rental_applications/new?listable_uid=ab12&source=Website","lat":35.3212,"lng":-80.8479}]''
   = simpleHash
     ''[{"id":"ab12","title":"Suite BB","address":null,"city":null,"type":"Commercial","rent":null,"sqft":null,"rentPerSF":null,"description":"","available":"Contact for availability","status":"coming-soon","imageUrl":null,"detailUrl":"https://greyrockcommercial.appfolio.com/listings/detail/ab12","applyUrl":"https://greyrockcommercial.appfolio.com/listings/rental_applications/new?listable_uid=ab12&source=Website","lat":35.3212,"lng":-80.8479}]''\<close>
  using simpleHash_collision [of \<open>''[{"id":"ab12","title":"Suite ''\<close>
     \<open>''","address":null,"city":null,"type":"Commercial","rent":null,"sqft":null,"rentPerSF":null,"description":"","available":"Contact for availability","status":"coming-soon","imageUrl":null,"detailUrl":"https://greyrockcommercial.appfolio.com/listings/detail/ab12","applyUrl":"https://greyrockcommercial.appfolio.com/listings/rental_applications/new?listable_uid=ab12&source=Website","lat":35.3212,"lng":-80.8479}]''\<close>]
  by (simp only: append.simps)

section \<open>Properties of the matcher\<close>

text \<open>A match never changes the capture of a group that the pattern does not
  contain, and it leaves a capture for every group that passes \<open>sets_group\<close>.\<close>

lemma step_char_caps: "st' \<in> set (step_char p st) \<Longrightarrow> caps st' = caps st"
  by (auto simp: step_char_def split: list.splits if_splits)

lemma caps_preserved:
  "st' \<in> set (rm ci r st) \<Longrightarrow> n \<notin> set (groups_of r) \<Longrightarrow> caps st' n = caps st n"
proof (induction ci r st arbitrary: st' rule: rm.induct)
  case (5 ci a b st)
  then obtain st1 where "st1 \<in> set (rm ci a st)" "st' \<in> set (rm ci b st1)" by auto
  then show ?case using 5 by auto
next
  case (7 ci m a st)
  then show ?case by (auto simp: capture_def)
next
  case (11 ci mn mx g a st)
  show ?case
  proof (cases "mx = Some 0")
    case True
    then show ?thesis using 11(3) by (simp add: rm.simps(11))
  next
    case False
    define again where "again = concat (map (\<lambda>st'.
                 if length (rest st) < length (rest st') \<or>
                    (mn = 0 \<and> length (rest st') = length (rest st))
                 then []
                 else rm ci (RRep (mn - 1) (map_option (\<lambda>m. m - 1) mx) g a) st')
               (rm ci a (reset a st)))"
    have in_again: "caps x n = caps st n" if "x \<in> set again" for x
    proof -
      from that obtain st1 where s1: "st1 \<in> set (rm ci a (reset a st))"
        and g: "\<not> (length (rest st) < length (rest st1) \<or> (mn = 0 \<and> length (rest st1) = length (rest st)))"
        and x: "x \<in> set (rm ci (RRep (mn - 1) (map_option (\<lambda>m. m - 1) mx) g a) st1)"
        unfolding again_def by (auto split: if_splits)
      have "caps st1 n = caps (reset a st) n" using 11(1) [OF False s1] 11(4) by simp
      moreover have "caps x n = caps st1 n" using 11(2) [OF False s1 g x] 11(4) by simp
      moreover have "caps (reset a st) n = caps st n" using 11(4) by (simp add: reset_def)
      ultimately show ?thesis by simp
    qed
    have "st' \<in> set again \<or> st' = st"
      using 11(3) False unfolding rm.simps(11) [of ci mn mx g a st] again_def [symmetric]
      by (auto simp: Let_def split: if_splits)
    then show ?thesis using in_again by auto
  qed
qed (auto dest: step_char_caps)

lemma caps_set:
  "st' \<in> set (rm ci r st) \<Longrightarrow> sets_group n r \<Longrightarrow> caps st' n \<noteq> None"
proof (induction r arbitrary: st st')
  case (RSeq a b)
  from RSeq(3) obtain st1 where s1: "st1 \<in> set (rm ci a st)" and s2: "st' \<in> set (rm ci b st1)" by auto
  show ?case
  proof (cases "sets_group n b")
    case True
    then show ?thesis using RSeq(2) s2 by blast
  next
    case False
    then have "sets_group n a" "n \<notin> set (groups_of b)" using RSeq(4) by auto
    then show ?thesis using RSeq(1) [OF s1] caps_preserved [OF s2] by simp
  qed
next
  case (RGroup m a)
  then show ?case by (auto simp: capture_def)
qed auto

lemma exec_at_groups:
  "exec_at ci r p s = Some m \<Longrightarrow> sets_group n r \<Longrightarrow> groups m n \<noteq> None"
  unfolding exec_at_def using caps_set [of _ ci r _ n]
  by (auto split: list.splits) (metis list.set_intros(1))

lemma rx_search_groups:
  "rx_search ci r p s = Some m \<Longrightarrow> sets_group n r \<Longrightarrow> groups m n \<noteq> None"
  by (induction s arbitrary: p) (auto dest: exec_at_groups split: option.splits)

lemma capture_of_ok:
  "js_match s re = Some m \<Longrightarrow> sets_group n (snd re) \<Longrightarrow> \<exists>g. capture_of m n = Inr g"
  unfolding js_match_def capture_of_def using rx_search_groups [of "fst re" "snd re" None s m n]
  by (auto split: option.splits)

section \<open>The extractors never raise\<close>

lemmas pattern_defs = seqs.simps alts.simps lit.simps rplus_def rstar_def ropt_def rlazy_plus_def
  rtimes_def rdigit_def rspaces_def rspaces1_def rword1_def

lemma group1_patterns:
  "sets_group 1 (snd re_uuid)" "sets_group 1 (snd re_sqft)" "sets_group 1 (snd re_address)"
  "sets_group 1 (snd re_available_date)" "sets_group 1 (snd re_commercial_type_v1)"
  "sets_group 1 (snd re_lease_type_v1)" "sets_group 1 (snd re_type_words)"
  "sets_group 1 (snd re_city)" "sets_group 1 (snd re_rent_v2)" "sets_group 1 (snd re_sqft_label)"
  "sets_group 1 (snd re_rent_sf_label)" "sets_group 1 (snd re_rent_sf_v2)"
  "sets_group 1 (snd re_available_slashes)" "sets_group 1 (snd re_available_now_v2)"
  "sets_group 1 (snd re_available_date_v2)" "sets_group 1 (snd re_commercial_type_v2)"
  "sets_group 1 (snd re_lease_type_v2)" "sets_group 1 (snd re_utilities)"
  by (simp_all add: re_uuid_def re_sqft_def re_address_def re_available_date_def
      re_commercial_type_v1_def re_lease_type_v1_def re_type_words_def re_city_def re_rent_v2_def
      re_sqft_label_def re_rent_sf_label_def re_rent_sf_v2_def re_available_slashes_def
      re_available_now_v2_def re_available_date_v2_def re_commercial_type_v2_def
      re_lease_type_v2_def re_utilities_def pattern_defs)

lemma bindE_capture:
  assumes "js_match s re = Some m" "sets_group 1 (snd re)"
  shows "\<exists>g. bindE (capture_of m 1) (\<lambda>g. Inr (f g)) = Inr (f g)"
  using capture_of_ok [OF assms] by (auto simp: bindE_def)

lemma sqft_v1_total: "\<exists>v. extract_sqft_v1 text = Inr v"
  unfolding extract_sqft_v1_def
  by (auto split: option.splits dest!: bindE_capture [OF _ group1_patterns(2)])

lemma address_total: "\<exists>v. extract_address text = Inr v"
  unfolding extract_address_def
  by (auto split: option.splits dest!: bindE_capture [OF _ group1_patterns(3)])

lemma city_total: "\<exists>v. extract_city addr = Inr v"
  unfolding extract_city_def
  by (auto split: option.splits dest!: bindE_capture [OF _ group1_patterns(8)])

lemma available_v1_total: "\<exists>v. extract_available_v1 text = Inr v"
  unfolding extract_available_v1_def
  by (auto split: option.splits dest!: capture_of_ok [OF _ group1_patterns(4)])

lemma first_type_total:
  "\<forall>p \<in> set ps. sets_group 1 (snd p) \<Longrightarrow> \<exists>v. first_type ps text = Inr v"
proof (induction ps)
  case Nil
  then show ?case by simp
next
  case (Cons p ps)
  show ?case
  proof (cases "js_match text p")
    case None
    then show ?thesis using Cons by simp
  next
    case (Some m)
    then show ?thesis using bindE_capture [OF Some, of "\<lambda>g. capitalize (trim g)"] Cons.prems by auto
  qed
qed

lemma type_v1_total: "\<exists>v. extract_type_v1 text = Inr v"
  unfolding extract_type_v1_def using group1_patterns(5,6,7) by (intro first_type_total) simp

lemma rent_v2_total: "\<exists>v. extract_rent_v2 text = Inr v"
  unfolding extract_rent_v2_def
  by (auto split: option.splits dest!: bindE_capture [OF _ group1_patterns(9)])

lemma or_match_Some:
  "or_match a b = Some m \<Longrightarrow> a = Some m \<or> b = Some m"
  by (auto simp: or_match_def split: option.splits)

lemma sqft_v2_total: "\<exists>v. extract_sqft_v2 text = Inr v"
proof (cases "or_match (js_match text re_sqft_label) (js_match text re_sqft)")
  case None
  then show ?thesis by (simp add: extract_sqft_v2_def)
next
  case (Some m)
  then have "\<exists>g. capture_of m 1 = Inr g"
    using or_match_Some [OF Some] capture_of_ok group1_patterns(2,10) by blast
  then show ?thesis using Some by (auto simp: extract_sqft_v2_def bindE_def)
qed

lemma rentPerSF_v2_total: "\<exists>v. extract_rentPerSF_v2 text = Inr v"
proof (cases "or_match (js_match text re_rent_sf_label) (js_match text re_rent_sf_v2)")
  case None
  then show ?thesis by (simp add: extract_rentPerSF_v2_def)
next
  case (Some m)
  then have "\<exists>g. capture_of m 1 = Inr g"
    using or_match_Some [OF Some] capture_of_ok group1_patterns(11,12) by blast
  then show ?thesis using Some by (auto simp: extract_rentPerSF_v2_def bindE_def)
qed

lemma available_v2_total: "\<exists>v. extract_available_v2 text = Inr v"
proof (cases "or_match (js_match text re_available_slashes)
             (or_match (js_match text re_available_now_v2) (js_match text re_available_date_v2))")
  case None
  then show ?thesis by (simp add: extract_available_v2_def)
next
  case (Some m)
  then have "js_match text re_available_slashes = Some m \<or> js_match text re_available_now_v2 = Some m
      \<or> js_match text re_available_date_v2 = Some m"
    by (auto dest!: or_match_Some)
  then have "\<exists>g. capture_of m 1 = Inr g"
    using capture_of_ok group1_patterns(13,14,15) by blast
  then show ?thesis using Some by (auto simp: extract_available_v2_def bindE_def)
qed

lemma labelled_total: "sets_group 1 (snd re) \<Longrightarrow> \<exists>v. labelled re text d f = Inr v"
  unfolding labelled_def
  by (auto split: option.splits dest!: capture_of_ok simp: bindE_def)

lemma extractListingData_total: "\<exists>l. extractListingData cardEl uuid = Inr l"
proof -
  obtain v1 where 1: "extract_sqft_v1 (textContent cardEl) = Inr v1" using sqft_v1_total by blast
  obtain v2 where 2: "extract_address (textContent cardEl) = Inr v2" using address_total by blast
  obtain v3 where 3: "extract_available_v1 (textContent cardEl) = Inr v3" using available_v1_total by blast
  obtain v4 where 4: "extract_type_v1 (textContent cardEl) = Inr v4" using type_v1_total by blast
  obtain v5 where 5: "extract_city v2 = Inr v5" using city_total by blast
  show ?thesis by (simp add: extractListingData_def Let_def bindE_def 1 2 3 4 5)
qed

lemma parseDetailPage_total: "\<exists>l. parseDetailPage doc uuid = Inr l"
proof -
  define t where "t = (case doc_body doc of None \<Rightarrow> [] | Some body \<Rightarrow> textContent body)"
  obtain v1 where 1: "extract_address t = Inr v1" using address_total by blast
  obtain v2 where 2: "extract_rent_v2 t = Inr v2" using rent_v2_total by blast
  obtain v3 where 3: "extract_sqft_v2 t = Inr v3" using sqft_v2_total by blast
  obtain v4 where 4: "extract_rentPerSF_v2 t = Inr v4" using rentPerSF_v2_total by blast
  obtain v5 where 5: "extract_available_v2 t = Inr v5" using available_v2_total by blast
  obtain v6 where 6: "labelled re_commercial_type_v2 t ''Commercial'' (\<lambda>g. g) = Inr v6"
    using labelled_total [OF group1_patterns(16), of t "''Commercial''" "\<lambda>g. g"] by auto
  obtain v7 where 7: "labelled re_lease_type_v2 t None Some = Inr v7"
    using labelled_total [OF group1_patterns(17), of t None Some] by auto
  obtain v8 where 8: "labelled re_utilities t None Some = Inr v8"
    using labelled_total [OF group1_patterns(18), of t None Some] by auto
  obtain v9 where 9: "extract_city v1 = Inr v9" using city_total by blast
  show ?thesis
    unfolding parseDetailPage_def t_def [symmetric] Let_def
    by (simp add: bindE_def 1 2 3 4 5 6 7 8 9)
qed

text \<open>
  Claim C2. No field extractor throws, whatever the card, the page and the
  identifier are: every capture that is read as a string takes part in every match of
  its pattern, and every element or attribute that may be missing is tested before it
  is used. The extractors of the rent of version 1, of the titles, the descriptions
  and the images have no failing step at all and are plain functions; absence is the
  value \<open>None\<close> (or the default) of the result.
\<close>

theorem extractors_never_throw:
  "(\<exists>l. extractListingData cardEl uuid = Inr l) \<and>
   (\<exists>l. parseDetailPage doc uuid = Inr l) \<and>
   (\<exists>v. extract_sqft_v1 text = Inr v) \<and>
   (\<exists>v. extract_address text = Inr v) \<and>
   (\<exists>v. extract_city addr = Inr v) \<and>
   (\<exists>v. extract_available_v1 text = Inr v) \<and>
   (\<exists>v. extract_type_v1 text = Inr v) \<and>
   (\<exists>v. extract_rent_v2 text = Inr v) \<and>
   (\<exists>v. extract_sqft_v2 text = Inr v) \<and>
   (\<exists>v. extract_rentPerSF_v2 text = Inr v) \<and>
   (\<exists>v. extract_available_v2 text = Inr v) \<and>
   (\<exists>v. labelled re_commercial_type_v2 text ''Commercial'' (\<lambda>g. g) = Inr v) \<and>
   (\<exists>v. labelled re_lease_type_v2 text None Some = Inr v) \<and>
   (\<exists>v. labelled re_utilities text None Some = Inr v)"
  using extractListingData_total parseDetailPage_total sqft_v1_total address_total city_total
    available_v1_total type_v1_total rent_v2_total sqft_v2_total rentPerSF_v2_total
    available_v2_total labelled_total [OF group1_patterns(16), of "text" "''Commercial''" "\<lambda>g. g"]
    labelled_total [OF group1_patterns(17), of "text" None Some]
    labelled_total [OF group1_patterns(18), of "text" None Some]
  by simp

section \<open>The index page without links\<close>

lemma exit_code_structure_changed: "exit_code structure_changed = 2"
  by (simp add: structure_changed_def exit_code_def)

text \<open>
  Claim C1. An index document without detail links whose body text holds one of the
  three phrases (\<open>No vacancies found\<close> is one) is parsed, in both versions, to the
  empty result with the no-vacancies flag, and the run writes an empty, valid
  snapshot without errors or warnings. Without such a phrase both parsers throw the
  \<open>STRUCTURE_CHANGED\<close> error and the run ends with exit code 2, not with the exit
  code 1 of a failed fetch.
\<close>

theorem index_without_links:
  assumes "doc_querySelectorAll doc [Compound detail_link] = []" and "doc_body doc = Some body"
  shows "(no_vacancies_text (textContent body) \<longrightarrow>
            parseListings doc = Inr \<lparr>listings = [], noVacancies = True\<rparr> \<and>
            run_v1 doc = Written [] True [] \<and>
            parseIndexPage doc = Inr \<lparr>uuids = [], noVacancies2 = True\<rparr> \<and>
            run_v2 fetch doc = Written [] True []) \<and>
         (\<not> no_vacancies_text (textContent body) \<longrightarrow>
            parseListings doc = Inl structure_changed \<and> run_v1 doc = Exit 2 \<and>
            parseIndexPage doc = Inl structure_changed \<and> run_v2 fetch doc = Exit 2) \<and>
         (str_includes (textContent body) ''No vacancies found'' \<longrightarrow>
            no_vacancies_text (textContent body)) \<and>
         errors (validateListings_v1 ([] :: listing list)) = [] \<and>
         valid (validateListings_v1 ([] :: listing list)) \<and>
         exit_code (Error ''HTTP 503: Service Unavailable'') = 1"
proof -
  have v: "validateListings_v1 ([] :: listing list) = \<lparr>errors = [], warnings = [], valid = True\<rparr>"
    by (simp add: validateListings_v1_def push_all_def)
  have n: "exit_code (Error ''HTTP 503: Service Unavailable'') = 1"
    by (simp add: exit_code_def)
  show ?thesis
    using assms v n
    by (simp add: parseListings_def parseIndexPage_def run_v1_def run_v2_def
        exit_code_structure_changed no_vacancies_text_def)
qed

theorem index_without_links_witness:
  "parseListings (page [Element ''p'' [] [Text ''No vacancies found'']]) =
     Inr \<lparr>listings = [], noVacancies = True\<rparr> \<and>
   run_v2 no_fetch (page [Element ''p'' [] [Text ''No vacancies found'']]) = Written [] True [] \<and>
   parseIndexPage (page [Element ''p'' [] [Text ''Welcome'']]) = Inl structure_changed \<and>
   run_v1 (page [Element ''p'' [] [Text ''Welcome'']]) = Exit 2"
proof -
  have a: "doc_querySelectorAll (page [Element ''p'' [] [Text t]]) [Compound detail_link] = []" for t
    by (simp add: page_def doc_querySelectorAll_def detail_link_def matches_compound_def)
  have b: "doc_body (page ns) = Some (Element ''body'' [] ns)" for ns
    by (simp add: page_def doc_body_def)
  have c: "no_vacancies_text (textContent (Element ''body'' [] [Element ''p'' [] [Text ''No vacancies found'']]))"
    by (simp add: no_vacancies_text_def)
  have d: "\<not> no_vacancies_text (textContent (Element ''body'' [] [Element ''p'' [] [Text ''Welcome'']]))"
    by (simp add: no_vacancies_text_def)
  show ?thesis
    using index_without_links [OF a b, of "''No vacancies found''" no_fetch]
      index_without_links [OF a b, of "''Welcome''" no_fetch] c d
    by simp
qed

lemma extractListingData_fields:
  assumes "extractListingData cardEl uuid = Inr l"
  shows "lid l = uuid" 
    and "rent l = extract_rent_v1 (textContent cardEl)"
    and "extract_sqft_v1 (textContent cardEl) = Inr (sqft l)"
    and "extract_address (textContent cardEl) = Inr (address l)"
    and "title l = extract_title_v1 cardEl (address l) uuid"
    and "extract_available_v1 (textContent cardEl) = Inr (available l)"
    and "status l = status_v1 (available l)"
    and "rentPerSF l = extract_rentPerSF_v1 (textContent cardEl) (rent l) (sqft l)"
  using assms
  by (auto simp: extractListingData_def bindE_def Let_def split: sum.splits)

lemma parseDetailPage_fields:
  assumes "parseDetailPage doc uuid = Inr l"
    and "t = (case doc_body doc of None \<Rightarrow> [] | Some body \<Rightarrow> textContent body)"
  shows "lid l = uuid"
    and "extract_rent_v2 t = Inr (rent l)"
    and "extract_sqft_v2 t = Inr (sqft l)"
    and "extract_rentPerSF_v2 t = Inr (rentPerSF l)"
    and "title l = extract_title_v2 doc uuid"
    and "extract_available_v2 t = Inr (available l)"
    and "status l = status_v2 (available l)"
  using assms
  by (auto simp: parseDetailPage_def bindE_def Let_def split: sum.splits)

section \<open>Titles\<close>

lemma or_else_nonempty: "d \<noteq> [] \<Longrightarrow> or_else a d \<noteq> []"
  by (auto simp: or_else_def split: option.splits)

lemma or_else_absent: "\<not> truthy_str a \<Longrightarrow> or_else a d = d"
  by (auto simp: or_else_def truthy_str_def split: option.splits)

lemma title_v1_nonempty: "extract_title_v1 cardEl addr uuid \<noteq> []"
  unfolding extract_title_v1_def Let_def by (intro or_else_nonempty) simp

lemma title_v2_nonempty: "extract_title_v2 doc uuid \<noteq> []"
  unfolding extract_title_v2_def Let_def by (intro or_else_nonempty) simp

lemma title_v1_fallback:
  assumes "querySelectorAll cardEl [[Tag ''h1''], [Tag ''h2''], [Tag ''h3''], [Tag ''h4''], [Tag ''h5'']] = []"
    and "querySelector cardEl [detail_link] = None" and "\<not> truthy_str addr"
  shows "extract_title_v1 cardEl addr uuid = ''Listing '' @ take 8 uuid"
  using assms by (simp add: extract_title_v1_def or_else_absent truthy_str_def)

lemma title_v2_fallback:
  assumes "doc_querySelectorAll doc [Compound [Tag ''h1''], Compound [Tag ''h2''], Compound [Tag ''h3'']] = []"
    and "doc_querySelector doc [Compound [Tag ''title'']] = None"
  shows "extract_title_v2 doc uuid = ''Listing '' @ take 8 uuid"
  using assms by (simp add: extract_title_v2_def or_else_absent truthy_str_def)

lemma forEach_invariant:
  assumes "forEach f xs st = Inr st'" and "P st"
    and "\<And>x s s'. f x s = Inr s' \<Longrightarrow> P s \<Longrightarrow> P s'"
  shows "P st'"
  using assms(1,2)
proof (induction xs arbitrary: st)
  case Nil
  then show ?case by simp
next
  case (Cons x xs)
  then show ?case using assms(3) by (auto simp: bindE_def split: sum.splits)
qed

lemma link_step_from_extract:
  assumes "link_step link st = Inr st'" and "\<forall>l \<in> set (snd st). \<exists>c u. extractListingData c u = Inr l"
  shows "\<forall>l \<in> set (snd st'). \<exists>c u. extractListingData c u = Inr l"
  using assms
  by (auto simp: link_step_def bindE_def Let_def split: option.splits sum.splits if_splits) blast+

lemma parseListings_from_extract:
  assumes "parseListings doc = Inr r" and "l \<in> set (listings r)"
  shows "\<exists>c u. extractListingData c u = Inr l"
proof (cases "doc_querySelectorAll doc [Compound detail_link] = []")
  case True
  then show ?thesis using assms
    by (auto simp: parseListings_def split: option.splits if_splits)
next
  case False
  then obtain st where st: "forEach link_step (doc_querySelectorAll doc [Compound detail_link]) ([], []) = Inr st"
    and r: "listings r = snd st"
    using assms(1) by (auto simp: parseListings_def bindE_def Let_def split: sum.splits)
  have "\<forall>l \<in> set (snd st). \<exists>c u. extractListingData c u = Inr l"
    by (rule forEach_invariant [OF st, where P = "\<lambda>s. \<forall>l \<in> set (snd s). \<exists>c u. extractListingData c u = Inr l"])
       (auto dest: link_step_from_extract)
  then show ?thesis using assms(2) r by simp
qed

lemma detail_listings_from_parse:
  "l \<in> set (detail_listings fetch us) \<Longrightarrow> \<exists>d u. parseDetailPage d u = Inr l"
proof -
  assume "l \<in> set (detail_listings fetch us)"
  then obtain u where "Inr l = bindE (fetch u) (\<lambda>detailHtml. parseDetailPage detailHtml u)"
    unfolding detail_listings_def push_all_concat by (auto split: sum.splits)
  then obtain d where "parseDetailPage d u = Inr l"
    by (cases "fetch u") (auto simp: bindE_def)
  then show ?thesis by blast
qed

text \<open>
  Claim C6. The title of every record that \<^verbatim>\<open>extractListingData\<close> or
  \<^verbatim>\<open>parseDetailPage\<close> returns is non-empty, and so is the title of every record of
  every written record set of both versions. When no heading, link text, page title
  or address gives a title, the title is \<open>Listing\<close>, a space and the first eight
  characters of the identifier.
\<close>

theorem title_never_empty:
  "(extractListingData cardEl uuid = Inr l1 \<longrightarrow> title l1 \<noteq> []) \<and>
   (parseDetailPage doc uuid = Inr l2 \<longrightarrow> title l2 \<noteq> []) \<and>
   (run_v1 index = Written ls1 nv1 ws1 \<longrightarrow> (\<forall>l \<in> set ls1. title l \<noteq> [])) \<and>
   (run_v2 fetch index = Written ls2 nv2 ws2 \<longrightarrow> (\<forall>l \<in> set ls2. title l \<noteq> [])) \<and>
   (querySelectorAll cardEl [[Tag ''h1''], [Tag ''h2''], [Tag ''h3''], [Tag ''h4''], [Tag ''h5'']] = [] \<and>
    querySelector cardEl [detail_link] = None \<and> \<not> truthy_str addr \<longrightarrow>
      extract_title_v1 cardEl addr uuid = ''Listing '' @ take 8 uuid) \<and>
   (doc_querySelectorAll doc [Compound [Tag ''h1''], Compound [Tag ''h2''], Compound [Tag ''h3'']] = [] \<and>
    doc_querySelector doc [Compound [Tag ''title'']] = None \<longrightarrow>
      extract_title_v2 doc uuid = ''Listing '' @ take 8 uuid)"
proof -
  have a: "title l \<noteq> []" if "extractListingData c u = Inr l" for c u l
    using extractListingData_fields(5) [OF that] title_v1_nonempty by simp
  have b: "title l \<noteq> []" if "parseDetailPage d u = Inr l" for d u l
    using parseDetailPage_fields(5) [OF that refl] title_v2_nonempty by simp
  have c: "\<forall>l \<in> set ls1. title l \<noteq> []" if "run_v1 index = Written ls1 nv1 ws1"
  proof -
    from that obtain r where "parseListings index = Inr r" "ls1 = listings r"
      by (auto simp: run_v1_def Let_def split: sum.splits if_splits)
    then show ?thesis using parseListings_from_extract a by blast
  qed
  have d: "\<forall>l \<in> set ls2. title l \<noteq> []" if "run_v2 fetch index = Written ls2 nv2 ws2"
  proof -
    from that have "ls2 = [] \<or> (\<exists>us. ls2 = detail_listings fetch us)"
      by (auto simp: run_v2_def Let_def split: sum.splits if_splits)
    then show ?thesis
    proof
      assume "ls2 = []"
      then show ?thesis by simp
    next
      assume "\<exists>us. ls2 = detail_listings fetch us"
      then obtain us where us: "ls2 = detail_listings fetch us" by blast
      show ?thesis
      proof
        fix l assume "l \<in> set ls2"
        then obtain d u where "parseDetailPage d u = Inr l"
          using detail_listings_from_parse us by blast
        then show "title l \<noteq> []" by (rule b)
      qed
    qed
  qed
  show ?thesis using a b c d title_v1_fallback title_v2_fallback by blast
qed

theorem title_never_empty_witness:
  "extract_title_v1 bare_card None ''ab12cd34ef'' = ''Listing ab12cd34'' \<and>
   extract_title_v2 (page [Text ''x'']) ''ab12cd34ef'' = ''Listing ab12cd34''"
proof -
  have a: "querySelectorAll bare_card [[Tag ''h1''], [Tag ''h2''], [Tag ''h3''], [Tag ''h4''], [Tag ''h5'']] = []"
    by (simp add: bare_card_def querySelectorAll_def matches_compound_def)
  have b: "extract_title_v1 bare_card None ''ab12cd34ef'' = ''Listing ab12cd34''"
    by code_simp
  have c: "doc_querySelectorAll (page [Text ''x'']) [Compound [Tag ''h1''], Compound [Tag ''h2''], Compound [Tag ''h3'']] = []"
    by (simp add: page_def doc_querySelectorAll_def matches_compound_def)
  have d: "doc_querySelector (page [Text ''x'']) [Compound [Tag ''title'']] = None"
    by (simp add: page_def doc_querySelector_def doc_querySelectorAll_def matches_compound_def)
  show ?thesis
    using title_never_empty [where cardEl = bare_card and uuid = "''ab12cd34ef''"
        and doc = "page [Text ''x'']" and addr = None] a b c d
    by simp
qed

section \<open>Properties of double arithmetic\<close>

lemma pow2_pos: "0 < pow2 k"
  by (simp add: pow2_def)

lemma pow2_add: "pow2 (a + b) = pow2 a * pow2 b"
  by (simp add: pow2_def power_int_add)

lemma pow2_nat: "0 \<le> k \<Longrightarrow> pow2 k = 2 ^ nat k"
  by (simp add: pow2_def power_int_def)

lemma pow2_neg: "pow2 (- k) = 1 / pow2 k"
  by (simp add: pow2_def power_int_minus_divide)

lemma pow2_mono: "a \<le> b \<Longrightarrow> pow2 a \<le> pow2 b"
  by (simp add: pow2_def power_int_increasing)

lemma pow2_less: "pow2 a < pow2 b \<Longrightarrow> a < b"
  using pow2_mono [of b a] by (cases "a < b") auto

lemma pow2_Suc: "pow2 (k + 1) = 2 * pow2 k"
  using power_int_add [of "2 :: rat" k 1] by (simp add: pow2_def)

lemma ilog2_bounds:
  "1 \<le> n \<Longrightarrow> 0 \<le> ilog2 n \<and> 2 ^ nat (ilog2 n) \<le> n \<and> n < 2 * 2 ^ nat (ilog2 n)"
proof (induction n rule: ilog2.induct)
  case (1 n)
  show ?case
  proof (cases "n < 2")
    case True
    then have "n = 1" using 1(2) by simp
    then show ?thesis by (subst (1 2 3) ilog2.simps) simp
  next
    case False
    then have h: "1 \<le> n div 2" by simp
    define k where "k = ilog2 (n div 2)"
    have ih: "0 \<le> k" "2 ^ nat k \<le> n div 2" "n div 2 < 2 * 2 ^ nat k"
      using 1(1) [OF False h] by (simp_all add: k_def)
    have e: "ilog2 n = 1 + k" using False by (subst ilog2.simps) (simp add: k_def)
    have n: "nat (1 + k) = Suc (nat k)" using ih(1) by simp
    have "2 * (n div 2) \<le> n" "n \<le> 2 * (n div 2) + 1" by presburger+
    then show ?thesis using ih unfolding e n by simp
  qed
qed

lemma exponent_bounds:
  assumes "0 < x"
  shows "pow2 (exponent x) \<le> x" and "x < pow2 (exponent x + 1)"
proof -
  have "pow2 (exponent x) \<le> x \<and> x < pow2 (exponent x + 1)"
  proof (cases "1 \<le> x")
    case True
    define n where "n = \<lfloor>x\<rfloor>"
    have n1: "1 \<le> n" using True by (simp add: n_def)
    define k where "k = ilog2 n"
    have b: "0 \<le> k" "2 ^ nat k \<le> n" "n < 2 * 2 ^ nat k"
      using ilog2_bounds [OF n1] by (simp_all add: k_def)
    have e: "exponent x = k" using True by (simp add: exponent_def n_def k_def)
    have "(of_int n :: rat) \<le> x" "x < of_int (n + 1)"
      using floor_correct [of x] by (simp_all add: n_def)
    moreover have "(2 :: rat) ^ nat k \<le> of_int n"
      using b(2) of_int_le_iff [of "2 ^ nat k" n, where ?'a = rat] by simp
    moreover have "(of_int (n + 1) :: rat) \<le> 2 * 2 ^ nat k"
      using b(3) of_int_le_iff [of "n + 1" "2 * 2 ^ nat k", where ?'a = rat] by simp
    ultimately have "(2 :: rat) ^ nat k \<le> x" "x < 2 * 2 ^ nat k" by linarith+
    then show ?thesis unfolding e pow2_Suc using b(1) by (simp add: pow2_nat)
  next
    case False
    define y where "y = 1 / x"
    have y1: "1 < y" using False assms by (simp add: y_def)
    define c where "c = \<lceil>y\<rceil>"
    have c2: "1 \<le> c - 1" using y1 ceiling_correct [of y] unfolding c_def by linarith
    define j where "j = ilog2 (c - 1)"
    have b: "0 \<le> j" "2 ^ nat j \<le> c - 1" "c - 1 < 2 * 2 ^ nat j"
      using ilog2_bounds [OF c2] by (simp_all add: j_def)
    have e: "exponent x = - (1 + j)" using False by (simp add: exponent_def y_def c_def j_def)
    have "y \<le> of_int c" "of_int (c - 1) < y"
      using ceiling_correct [of y] by (simp_all add: c_def)
    moreover have "(2 :: rat) ^ nat j \<le> of_int (c - 1)"
      using b(2) of_int_le_iff [of "2 ^ nat j" "c - 1", where ?'a = rat] by simp
    moreover have "(of_int c :: rat) \<le> 2 * 2 ^ nat j"
      using b(3) of_int_le_iff [of c "2 * 2 ^ nat j", where ?'a = rat] by simp
    ultimately have yb: "(2 :: rat) ^ nat j < y" "y \<le> 2 * 2 ^ nat j" by linarith+
    have "pow2 (1 + j) = 2 * 2 ^ nat j" "pow2 j = 2 ^ nat j"
      using b(1) pow2_Suc [of j] by (simp_all add: pow2_nat add.commute)
    then have p: "pow2 (- (1 + j)) = 1 / (2 * 2 ^ nat j)" "pow2 (- (1 + j) + 1) = 1 / 2 ^ nat j"
      using pow2_neg [of "1 + j"] pow2_neg [of j] by simp_all
    have x: "x = 1 / y" by (simp add: y_def)
    have "1 / (2 * 2 ^ nat j) \<le> 1 / y" using yb(2) y1 by (intro divide_left_mono) simp_all
    moreover have "1 / y < 1 / 2 ^ nat j" using yb(1) y1 by (intro divide_strict_left_mono) simp_all
    moreover have "pow2 (exponent x) = 1 / (2 * 2 ^ nat j)" "pow2 (exponent x + 1) = 1 / 2 ^ nat j"
      using e p by simp_all
    ultimately show ?thesis using x by simp
  qed
  then show "pow2 (exponent x) \<le> x" and "x < pow2 (exponent x + 1)" by simp_all
qed

lemma round_half_even_near: "\<bar>of_int (round_half_even z) - z\<bar> \<le> 1 / 2"
proof -
  have "of_int \<lfloor>z\<rfloor> \<le> z" "z < of_int \<lfloor>z\<rfloor> + 1" using floor_correct [of z] by simp_all
  then show ?thesis unfolding round_half_even_def by (simp add: abs_le_iff)
qed

lemma round_half_even_le: "z \<le> of_int n \<Longrightarrow> round_half_even z \<le> n"
proof -
  assume a: "z \<le> of_int n"
  have f: "\<lfloor>z\<rfloor> \<le> n" using a by (simp add: floor_le_iff)
  show ?thesis
  proof (cases "\<lfloor>z\<rfloor> = n")
    case True
    then have "z = of_int n" using a floor_correct [of z] by simp
    then show ?thesis by (simp add: round_half_even_def)
  next
    case False
    then have "\<lfloor>z\<rfloor> + 1 \<le> n" using f by simp
    then show ?thesis using f by (simp add: round_half_even_def)
  qed
qed

lemma round_half_even_ge: "of_int n \<le> z \<Longrightarrow> n \<le> round_half_even z"
proof -
  assume "of_int n \<le> z"
  then have "n \<le> \<lfloor>z\<rfloor>" by (simp add: le_floor_iff)
  then show ?thesis by (simp add: round_half_even_def)
qed

lemma pow2_numeral: "pow2 52 = 2 ^ 52" "pow2 53 = 2 ^ 53"
  by (simp_all add: pow2_def)

lemma round_at_error:
  assumes "pow2 (e + 52) \<le> x" and "x < pow2 (e + 53)"
  shows "\<bar>round_at e x - x\<bar> \<le> x / 2 ^ 53"
    and "pow2 (e + 52) \<le> round_at e x"
    and "round_at e x \<le> pow2 (e + 53)"
proof -
  define z where "z = x / pow2 e"
  define m where "m = round_half_even z"
  have pe: "0 < pow2 e" by (rule pow2_pos)
  have x: "x = z * pow2 e" using pe by (simp add: z_def)
  have lo: "2 ^ 52 * pow2 e \<le> x" and hi: "x < 2 ^ 53 * pow2 e"
    using assms by (simp_all add: pow2_add pow2_numeral mult.commute)
  have z1: "2 ^ 52 \<le> z" using lo pe by (simp add: z_def pos_le_divide_eq)
  have z2: "z < 2 ^ 53" using hi pe by (simp add: z_def pos_divide_less_eq)
  have near: "\<bar>of_int m - z\<bar> \<le> 1 / 2" unfolding m_def by (rule round_half_even_near)
  have m1: "2 ^ 52 \<le> m" using round_half_even_ge [of "2 ^ 52" z] z1 by (simp add: m_def)
  have m2: "m \<le> 2 ^ 53" using round_half_even_le [of z "2 ^ 53"] z2 by (simp add: m_def)
  have r: "round_at e x = of_int m * pow2 e" by (simp only: round_at_def m_def z_def)
  have "round_at e x - x = of_int m * pow2 e - z * pow2 e" using r x by simp
  then have "round_at e x - x = (of_int m - z) * pow2 e" by (simp add: algebra_simps)
  then have "\<bar>round_at e x - x\<bar> = \<bar>of_int m - z\<bar> * pow2 e" using pe by (simp add: abs_mult)
  also have "\<dots> \<le> 1 / 2 * pow2 e" using near pe by (intro mult_right_mono) simp_all
  also have "\<dots> \<le> x / 2 ^ 53" using lo by simp
  finally show "\<bar>round_at e x - x\<bar> \<le> x / 2 ^ 53" .
  have "(2 :: rat) ^ 52 \<le> of_int m" using m1 of_int_le_iff [of "2 ^ 52" m, where ?'a = rat] by simp
  then have "2 ^ 52 * pow2 e \<le> of_int m * pow2 e" using pe by (intro mult_right_mono) simp_all
  then show "pow2 (e + 52) \<le> round_at e x" unfolding r by (simp add: pow2_add pow2_numeral mult.commute)
  have "(of_int m :: rat) \<le> 2 ^ 53" using m2 of_int_le_iff [of m "2 ^ 53", where ?'a = rat] by simp
  then have "of_int m * pow2 e \<le> 2 ^ 53 * pow2 e" using pe by (intro mult_right_mono) simp_all
  then show "round_at e x \<le> pow2 (e + 53)" unfolding r by (simp add: pow2_add pow2_numeral mult.commute)
qed

lemma fl_error:
  assumes "pow2 (- 1022) \<le> x" and "x < pow2 1023"
  shows "\<exists>v. fl x = Num v \<and> \<bar>v - x\<bar> \<le> x / 2 ^ 53 \<and> 0 < v"
proof -
  have x0: "0 < x" using assms(1) pow2_pos [of "- 1022"] by simp
  define k where "k = exponent x"
  have b: "pow2 k \<le> x" "x < pow2 (k + 1)" using exponent_bounds [OF x0] by (simp_all add: k_def)
  have "pow2 (- 1022) < pow2 (k + 1)" using assms(1) b(2) by simp
  then have k1: "- 1022 \<le> k" using pow2_less [of "- 1022" "k + 1"] by simp
  have "pow2 k < pow2 1023" using assms(2) b(1) by simp
  then have k2: "k < 1023" by (rule pow2_less)
  define v where "v = round_at (k - 52) x"
  have e: "max (exponent x - 52) (- 1074) = k - 52" using k1 by (simp add: k_def)
  have i: "k - 52 + 52 = k" "k - 52 + 53 = k + 1" by simp_all
  have r: "\<bar>v - x\<bar> \<le> x / 2 ^ 53" "pow2 k \<le> v" "v \<le> pow2 (k + 1)"
    using round_at_error [of "k - 52" x] b unfolding i v_def by blast+
  have v0: "0 < v" using r(2) pow2_pos [of k] by simp
  have "exponent v < 1024"
  proof (rule ccontr)
    assume "\<not> exponent v < 1024"
    then have "pow2 1024 \<le> pow2 (exponent v)" by (intro pow2_mono) simp
    also have "\<dots> \<le> v" using exponent_bounds(1) [OF v0] .
    also have "\<dots> \<le> pow2 (k + 1)" using r(3) .
    also have "\<dots> \<le> pow2 1023" using k2 by (intro pow2_mono) simp
    finally have "pow2 1024 \<le> pow2 1023" .
    moreover have "pow2 1023 < pow2 1024" using pow2_Suc [of 1023] pow2_pos [of 1023] by simp
    ultimately show False by simp
  qed
  then have "fl x = Num v" using x0 by (simp add: fl_def fl_pos_def finite_or_infinity_def e v_def)
  then show ?thesis using r(1) v0 by simp
qed

lemma product_error_range:
  assumes "0 < r" and "0 < a" and "L \<le> r / a * 12" and "r / a * 12 < H"
    and "0 < L" and "pow2 (- 1022) \<le> L / 24" and "2 * H \<le> pow2 1023"
  shows "\<exists>y. js_mul (js_div (Num r) (Num a)) (Num 12) = Num y \<and>
             \<bar>y - r / a * 12\<bar> \<le> r / a * 12 / 2 ^ 51 \<and> 0 \<le> y \<and> y < 2 * H"
proof -
  define x where "x = r / a * 12"
  have x: "L \<le> x" "x < H" "r / a = x / 12" using assms by (simp_all add: x_def)
  have x0: "0 < x" using assms(1,2) by (simp add: x_def)
  have "pow2 (- 1022) \<le> x / 12" "x / 12 < pow2 1023"
    using x(1,2) assms(5,6,7) by linarith+
  then obtain q where q: "fl (r / a) = Num q" "\<bar>q - x / 12\<bar> \<le> x / 12 / 2 ^ 53" "0 < q"
    using fl_error [of "r / a"] x(3) by auto
  define d where "d = x / 2 ^ 53"
  have d: "x = d * 9007199254740992" "0 < d" using x0 by (simp_all add: d_def)
  have "x / 12 / 2 ^ 53 = d / 12" by (simp add: d_def)
  then have "\<bar>q - x / 12\<bar> \<le> d / 12" using q(2) by simp
  then have a: "q - x / 12 \<le> d / 12" "- (q - x / 12) \<le> d / 12" unfolding abs_le_iff by blast+
  have q1: "x / 2 \<le> q * 12" "q * 12 \<le> 2 * x" "q * 12 - x \<le> d" "- (q * 12 - x) \<le> d"
    using a d by linarith+
  have "pow2 (- 1022) \<le> q * 12" "q * 12 < pow2 1023"
    using q1(1,2) x(1,2) assms(5,6,7) by linarith+
  then obtain y where y: "fl (q * 12) = Num y" "\<bar>y - q * 12\<bar> \<le> q * 12 / 2 ^ 53" "0 < y"
    using fl_error [of "q * 12"] by auto
  have "q * 12 / 2 ^ 53 \<le> 2 * x / 2 ^ 53" using q1(2) by (intro divide_right_mono) simp_all
  also have "\<dots> = 2 * d" by (simp add: d_def)
  finally have "\<bar>y - q * 12\<bar> \<le> 2 * d" using y(2) by simp
  then have b: "y - q * 12 \<le> 2 * d" "- (y - q * 12) \<le> 2 * d" unfolding abs_le_iff by blast+
  have "x / 2 ^ 51 = 4 * d" by (simp add: d_def)
  moreover have "y - x \<le> 4 * d" "- (y - x) \<le> 4 * d" using b q1(3,4) d(2) by linarith+
  ultimately have e: "\<bar>y - x\<bar> \<le> x / 2 ^ 51" unfolding abs_le_iff by simp
  have "y < 2 * H" using b q1(3) d x(2) by linarith
  moreover have "js_mul (js_div (Num r) (Num a)) (Num 12) = Num y"
    using assms(2) q(1) y(1) by (simp add: js_mul_def js_div_def)
  ultimately show ?thesis using e y(3) by (auto simp: x_def)
qed

lemma product_error:
  assumes "0 < r" and "0 < a" and "1 / 10 ^ 300 \<le> r / a * 12" and "r / a * 12 < 10 ^ 20"
  shows "\<exists>y. js_mul (js_div (Num r) (Num a)) (Num 12) = Num y \<and>
             \<bar>y - r / a * 12\<bar> \<le> r / a * 12 / 2 ^ 51 \<and> 0 \<le> y \<and> y < 10 ^ 21"
proof -
  have "pow2 (- 1022) \<le> 1 / 10 ^ 300 / 24" "2 * 10 ^ 20 \<le> pow2 1023"
    by (simp_all add: pow2_def power_int_minus_divide)
  then obtain y where "js_mul (js_div (Num r) (Num a)) (Num 12) = Num y"
     "\<bar>y - r / a * 12\<bar> \<le> r / a * 12 / 2 ^ 51" "0 \<le> y" "y < 2 * 10 ^ 20"
    using product_error_range [OF assms] by auto
  then show ?thesis by (intro exI [of _ y]) simp
qed

lemma fixed2_round2: "0 \<le> y \<Longrightarrow> y < 10 ^ 21 \<Longrightarrow> fixed2 (Num y) = fl (spec_round2 y)"
proof (cases "y = 0")
  case True
  then show ?thesis by (simp add: fixed2_def spec_round2_def)
next
  case False
  assume "0 \<le> y" "y < 10 ^ 21"
  then show ?thesis using False by (simp add: fixed2_def spec_round2_def round_def)
qed

text \<open>Numbers from \<open>2 ^ 1024\<close> on become \<open>Infinity\<close>, and the integers up to \<open>2 ^ 53\<close>
  are doubles.\<close>

lemma round_half_even_int: "round_half_even (of_int n) = n"
  by (simp add: round_half_even_def)

lemma exponent_less:
  assumes "0 < x" and "x < pow2 k"
  shows "exponent x < k"
  using exponent_bounds(1) [OF assms(1)] assms(2) pow2_less [of "exponent x" k] by simp

lemma exponent_ge:
  assumes "pow2 k \<le> x"
  shows "k \<le> exponent x"
proof -
  have "0 < x" using assms pow2_pos [of k] by simp
  then have "pow2 k < pow2 (exponent x + 1)" using exponent_bounds(2) assms by fastforce
  then show ?thesis using pow2_less [of k "exponent x + 1"] by simp
qed

lemma fl_overflow:
  assumes "pow2 1024 \<le> x"
  shows "fl x = Infinity"
proof -
  have x0: "0 < x" using assms pow2_pos [of 1024] by simp
  define k where "k = exponent x"
  have k: "1024 \<le> k" unfolding k_def using assms by (rule exponent_ge)
  have i: "k - 52 + 52 = k" "k - 52 + 53 = k + 1" by simp_all
  have b: "pow2 k \<le> x" "x < pow2 (k + 1)"
    using exponent_bounds [OF x0] by (simp_all add: k_def)
  have "pow2 k \<le> round_at (k - 52) x" using round_at_error(2) [of "k - 52" x] b unfolding i by blast
  then have "pow2 1024 \<le> round_at (k - 52) x" using pow2_mono [OF k] by simp
  then have "1024 \<le> exponent (round_at (k - 52) x)" by (rule exponent_ge)
  moreover have "max (exponent x - 52) (- 1074) = k - 52" using k by (simp add: k_def)
  ultimately show ?thesis using x0 by (simp add: fl_def fl_pos_def finite_or_infinity_def)
qed

lemma fl_int:
  assumes "\<bar>n\<bar> \<le> 2 ^ 53"
  shows "fl (of_int n) = Num (of_int n)"
proof -
  have pos: "fl_pos (of_int m) = Num (of_int m)" if m: "0 < m" "m \<le> 2 ^ 53" for m :: int
  proof -
    define x :: rat where "x = of_int m"
    have x0: "0 < x" using m(1) by (simp add: x_def)
    have "x \<le> 2 ^ 53" using m(2) of_int_le_iff [of m "2 ^ 53", where ?'a = rat] by (simp add: x_def)
    then have "x < pow2 54" using pow2_Suc [of 53] by (simp add: pow2_numeral)
    then have k: "exponent x < 54" using x0 by (intro exponent_less)
    have "pow2 0 \<le> x" using m(1) by (simp add: x_def pow2_def)
    then have k0: "0 \<le> exponent x" by (rule exponent_ge)
    define j where "j = nat (52 - exponent x)"
    define e where "e = max (exponent x - 52) (- 1074)"
    show ?thesis
    proof (cases "exponent x \<le> 52")
      case True
      then have e: "e = - int j" using k0 by (simp add: e_def j_def)
      have p: "pow2 e = 1 / 2 ^ j" unfolding e using pow2_neg [of "int j"] by (simp add: pow2_nat)
      have "x / pow2 e = of_int (m * 2 ^ j)" by (simp add: p x_def)
      then have "round_at e x = x" unfolding round_at_def using round_half_even_int [of "m * 2 ^ j"]
        by (simp add: p x_def)
      moreover have "exponent x < 1024" using k by simp
      ultimately show ?thesis
        unfolding fl_pos_def finite_or_infinity_def x_def [symmetric] e_def [symmetric] by simp
    next
      case False
      then have ex: "exponent x = 53" using k by simp
      then have "pow2 53 \<le> x" using exponent_bounds(1) [OF x0] by simp
      then have xe: "x = 2 ^ 53" using \<open>x \<le> 2 ^ 53\<close> by (simp add: pow2_numeral)
      have e: "e = 1" by (simp add: e_def ex)
      have "x / pow2 e = of_int (2 ^ 52)" by (simp add: xe e pow2_def)
      then have "round_at e x = x" unfolding round_at_def using round_half_even_int [of "2 ^ 52"]
        by (simp add: xe e pow2_def)
      moreover have "exponent x < 1024" using k by simp
      ultimately show ?thesis
        unfolding fl_pos_def finite_or_infinity_def x_def [symmetric] e_def [symmetric] by simp
    qed
  qed
  consider "n = 0" | "0 < n" | "n < 0" by linarith
  then show ?thesis
  proof cases
    case 1
    then show ?thesis by (simp add: fl_def)
  next
    case 2
    then show ?thesis using pos [of n] assms by (simp add: fl_def)
  next
    case 3
    then show ?thesis using pos [of "- n"] assms by (simp add: fl_def negate_def)
  qed
qed

section \<open>Rent per square foot\<close>

text \<open>
  Claim C4, amended. Version 1: when the card's text states a rate per square foot,
  the stated number is the record's \<open>rentPerSF\<close> and nothing overwrites it. When it
  states none and rent and square footage are both positive numbers, \<open>rentPerSF\<close> is
  \<^verbatim>\<open>parseFloat((rent / sqft * 12).toFixed(2))\<close> in double arithmetic: when the exact
  value of \<open>rent / sqft * 12\<close> is at least \<open>10^-300\<close> and below \<open>10^20\<close>, the double \<open>y\<close>
  computed for it differs from it by at most its \<open>2^51\<close>-th part, and \<open>rentPerSF\<close> is
  the double nearest to \<open>round(y, 2)\<close>. When it states none and rent or square footage
  is \<open>null\<close>, \<open>rentPerSF\<close> is \<open>null\<close>. Version 2: \<open>rentPerSF\<close> is the stated number when a
  rate is stated and \<open>null\<close> otherwise; nothing is derived.
\<close>

theorem rent_per_area:
  "(extractListingData cardEl uuid = Inr la \<longrightarrow>
      (\<forall>m. js_match (textContent cardEl) re_rent_sf_v1 = Some m \<longrightarrow>
         rentPerSF la = Some (case groups m 1 of None \<Rightarrow> NaN | Some g \<Rightarrow> parseFloat g)) \<and>
      (js_match (textContent cardEl) re_rent_sf_v1 = None \<longrightarrow>
         (\<forall>r a. rent la = Some (Num r) \<and> sqft la = Some (Num a) \<and> 0 < r \<and> 0 < a \<longrightarrow>
            rentPerSF la = Some (fixed2 (js_mul (js_div (Num r) (Num a)) (Num 12))) \<and>
            (1 / 10 ^ 300 \<le> r / a * 12 \<and> r / a * 12 < 10 ^ 20 \<longrightarrow>
               (\<exists>y. js_mul (js_div (Num r) (Num a)) (Num 12) = Num y \<and>
                    \<bar>y - r / a * 12\<bar> \<le> r / a * 12 / 2 ^ 51 \<and>
                    rentPerSF la = Some (fl (spec_round2 y))))) \<and>
         (rent la = None \<or> sqft la = None \<longrightarrow> rentPerSF la = None))) \<and>
   (parseDetailPage doc uuid = Inr lb \<longrightarrow>
      (\<forall>m. stated_rate_v2 (body_text doc) = Some m \<longrightarrow>
         (\<exists>g. groups m 1 = Some g \<and> rentPerSF lb = Some (parseFloat (remove_chars '','' g)))) \<and>
      (stated_rate_v2 (body_text doc) = None \<longrightarrow> rentPerSF lb = None))"
proof -
  have v1: "rentPerSF la = extract_rentPerSF_v1 (textContent cardEl) (rent la) (sqft la)"
    if "extractListingData cardEl uuid = Inr la"
    using extractListingData_fields(8) [OF that] .
  have v2: "extract_rentPerSF_v2 (body_text doc) = Inr (rentPerSF lb)"
    if "parseDetailPage doc uuid = Inr lb"
    using parseDetailPage_fields(4) [OF that] by (simp add: body_text_def)
  have a: "extract_rentPerSF_v1 t (Some (Num r)) (Some (Num a)) =
           Some (fixed2 (js_mul (js_div (Num r) (Num a)) (Num 12)))"
    if "js_match t re_rent_sf_v1 = None" "0 < r" "0 < a" for t r a
    using that by (simp add: extract_rentPerSF_v1_def derived_rentPerSF_def truthy_num_def)
  have a': "\<exists>y. js_mul (js_div (Num r) (Num a)) (Num 12) = Num y \<and>
                \<bar>y - r / a * 12\<bar> \<le> r / a * 12 / 2 ^ 51 \<and>
                extract_rentPerSF_v1 t (Some (Num r)) (Some (Num a)) = Some (fl (spec_round2 y))"
    if h: "js_match t re_rent_sf_v1 = None" "0 < r" "0 < a"
       "1 / 10 ^ 300 \<le> r / a * 12" "r / a * 12 < 10 ^ 20" for t r a
  proof -
    obtain y where y: "js_mul (js_div (Num r) (Num a)) (Num 12) = Num y"
        "\<bar>y - r / a * 12\<bar> \<le> r / a * 12 / 2 ^ 51" "0 \<le> y" "y < 10 ^ 21"
      using product_error [OF h(2-5)] by blast
    have "extract_rentPerSF_v1 t (Some (Num r)) (Some (Num a)) = Some (fl (spec_round2 y))"
      using a [OF h(1-3)] y(1) fixed2_round2 [OF y(3,4)] by simp
    then show ?thesis using y(1,2) by blast
  qed
  have b: "extract_rentPerSF_v1 t x y = None"
    if "js_match t re_rent_sf_v1 = None" "x = None \<or> y = None" for t x y
    using that by (auto simp: extract_rentPerSF_v1_def derived_rentPerSF_def truthy_num_def)
  have c: "extract_rentPerSF_v1 t x y = Some (case groups m 1 of None \<Rightarrow> NaN | Some g \<Rightarrow> parseFloat g)"
    if "js_match t re_rent_sf_v1 = Some m" for t x y m
    using that by (simp add: extract_rentPerSF_v1_def)
  have d: "\<exists>g. groups m 1 = Some g \<and> v = Some (parseFloat (remove_chars '','' g))"
    if "extract_rentPerSF_v2 t = Inr v" "stated_rate_v2 t = Some m" for t v m
    using that by (auto simp: extract_rentPerSF_v2_def stated_rate_v2_def bindE_def capture_of_def
        split: option.splits)
  have e: "v = None" if "extract_rentPerSF_v2 t = Inr v" "stated_rate_v2 t = None" for t v
    using that by (simp add: extract_rentPerSF_v2_def stated_rate_v2_def)
  have one: "extractListingData cardEl uuid = Inr la \<longrightarrow>
      (\<forall>m. js_match (textContent cardEl) re_rent_sf_v1 = Some m \<longrightarrow>
         rentPerSF la = Some (case groups m 1 of None \<Rightarrow> NaN | Some g \<Rightarrow> parseFloat g)) \<and>
      (js_match (textContent cardEl) re_rent_sf_v1 = None \<longrightarrow>
         (\<forall>r a. rent la = Some (Num r) \<and> sqft la = Some (Num a) \<and> 0 < r \<and> 0 < a \<longrightarrow>
            rentPerSF la = Some (fixed2 (js_mul (js_div (Num r) (Num a)) (Num 12))) \<and>
            (1 / 10 ^ 300 \<le> r / a * 12 \<and> r / a * 12 < 10 ^ 20 \<longrightarrow>
               (\<exists>y. js_mul (js_div (Num r) (Num a)) (Num 12) = Num y \<and>
                    \<bar>y - r / a * 12\<bar> \<le> r / a * 12 / 2 ^ 51 \<and>
                    rentPerSF la = Some (fl (spec_round2 y))))) \<and>
         (rent la = None \<or> sqft la = None \<longrightarrow> rentPerSF la = None))"
  proof (intro impI conjI allI)
    fix m
    assume "extractListingData cardEl uuid = Inr la" "js_match (textContent cardEl) re_rent_sf_v1 = Some m"
    then show "rentPerSF la = Some (case groups m 1 of None \<Rightarrow> NaN | Some g \<Rightarrow> parseFloat g)"
      using v1 c by simp
  next
    fix r a
    assume h: "extractListingData cardEl uuid = Inr la" "js_match (textContent cardEl) re_rent_sf_v1 = None"
      "rent la = Some (Num r) \<and> sqft la = Some (Num a) \<and> 0 < r \<and> 0 < a"
    then show "rentPerSF la = Some (fixed2 (js_mul (js_div (Num r) (Num a)) (Num 12)))"
      using v1 a [of "textContent cardEl" r a] by simp
    assume "1 / 10 ^ 300 \<le> r / a * 12 \<and> r / a * 12 < 10 ^ 20"
    then show "\<exists>y. js_mul (js_div (Num r) (Num a)) (Num 12) = Num y \<and>
                   \<bar>y - r / a * 12\<bar> \<le> r / a * 12 / 2 ^ 51 \<and>
                   rentPerSF la = Some (fl (spec_round2 y))"
      using h v1 a' [of "textContent cardEl" r a] by simp
  next
    assume "extractListingData cardEl uuid = Inr la" "js_match (textContent cardEl) re_rent_sf_v1 = None"
      "rent la = None \<or> sqft la = None"
    then show "rentPerSF la = None"
      using v1 b [of "textContent cardEl" "rent la" "sqft la"] by simp
  qed
  have two: "parseDetailPage doc uuid = Inr lb \<longrightarrow>
      (\<forall>m. stated_rate_v2 (body_text doc) = Some m \<longrightarrow>
         (\<exists>g. groups m 1 = Some g \<and> rentPerSF lb = Some (parseFloat (remove_chars '','' g)))) \<and>
      (stated_rate_v2 (body_text doc) = None \<longrightarrow> rentPerSF lb = None)"
    using v2 d e by blast
  show ?thesis using one two by (rule conjI)
qed

text \<open>
  Claim C4 as stated fails. Version 2 derives nothing, so a page with a rent of 2500
  and 1200 square feet and no stated rate has no \<open>rentPerSF\<close>. In version 1 the quotient
  is computed in doubles: for a rent of 1003 and 800 square feet the exact value is
  15.045, which rounds to 15.05, but the double computed for it lies below 15.045
  and the record holds the double of 15.04.
\<close>

theorem rent_per_area_counterexample:
  "parseDetailPage (page [Text ''Rent $2,500 1,200 SF'']) ''ab12'' = Inr
     \<lparr>lid = ''ab12'', title = ''Listing ab12'', address = None, city = None, ptype = ''Commercial'',
      rent = Some (Num 2500), sqft = Some (Num 1200), rentPerSF = None, description = [],
      available = ''Contact for availability'', status = ''coming-soon'', imageUrl = None,
      detailUrl = ''https://greyrockcommercial.appfolio.com/listings/detail/ab12'',
      applyUrl = ''https://greyrockcommercial.appfolio.com/listings/rental_applications/new?listable_uid=ab12&source=Website'',
      leaseType = None, utilities = None, imageUrls = []\<rparr> \<and>
   extractListingData (Element ''li'' [] [Text ''$1,003 800 SF'']) ''ab12'' = Inr
     \<lparr>lid = ''ab12'', title = ''Listing ab12'', address = None, city = None, ptype = ''Commercial'',
      rent = Some (Num 1003), sqft = Some (Num 800), rentPerSF = Some (fl (1504 / 100)), description = [],
      available = ''Contact for availability'', status = ''coming-soon'', imageUrl = None,
      detailUrl = ''https://greyrockcommercial.appfolio.com/listings/detail/ab12'',
      applyUrl = ''https://greyrockcommercial.appfolio.com/listings/rental_applications/new?listable_uid=ab12&source=Website''\<rparr> \<and>
   spec_round2 (1003 / 800 * 12) = 1505 / 100 \<and>
   fl (1504 / 100) \<noteq> fl (1505 / 100)"
  by code_simp

theorem rent_per_area_witness:
  "extractListingData (Element ''li'' [] [Text ''$2,500 1,200 SF'']) ''ab12'' = Inr
     \<lparr>lid = ''ab12'', title = ''Listing ab12'', address = None, city = None, ptype = ''Commercial'',
      rent = Some (Num 2500), sqft = Some (Num 1200), rentPerSF = Some (Num 25), description = [],
      available = ''Contact for availability'', status = ''coming-soon'', imageUrl = None,
      detailUrl = ''https://greyrockcommercial.appfolio.com/listings/detail/ab12'',
      applyUrl = ''https://greyrockcommercial.appfolio.com/listings/rental_applications/new?listable_uid=ab12&source=Website''\<rparr> \<and>
   js_match ''$2,500 1,200 SF'' re_rent_sf_v1 = None \<and>
   (\<exists>y. \<bar>y - 25\<bar> \<le> 25 / 2 ^ 51 \<and> Num 25 = fl (spec_round2 y)) \<and>
   extractListingData (Element ''li'' [] [Text ''$2,500 1,200 SF $24.50/yr'']) ''ab12'' = Inr
     \<lparr>lid = ''ab12'', title = ''Listing ab12'', address = None, city = None, ptype = ''Commercial'',
      rent = Some (Num 2500), sqft = Some (Num 1200), rentPerSF = Some (fl (2450 / 100)), description = [],
      available = ''Contact for availability'', status = ''coming-soon'', imageUrl = None,
      detailUrl = ''https://greyrockcommercial.appfolio.com/listings/detail/ab12'',
      applyUrl = ''https://greyrockcommercial.appfolio.com/listings/rental_applications/new?listable_uid=ab12&source=Website''\<rparr> \<and>
   map_option (\<lambda>m. groups m 1) (js_match ''$2,500 1,200 SF $24.50/yr'' re_rent_sf_v1) = Some (Some ''24.50'') \<and>
   parseDetailPage (page [Text ''Rent $2,500 1,200 SF $30.00/yr'']) ''ab12'' = Inr
     \<lparr>lid = ''ab12'', title = ''Listing ab12'', address = None, city = None, ptype = ''Commercial'',
      rent = Some (Num 2500), sqft = Some (Num 1200), rentPerSF = Some (Num 30), description = [],
      available = ''Contact for availability'', status = ''coming-soon'', imageUrl = None,
      detailUrl = ''https://greyrockcommercial.appfolio.com/listings/detail/ab12'',
      applyUrl = ''https://greyrockcommercial.appfolio.com/listings/rental_applications/new?listable_uid=ab12&source=Website'',
      leaseType = None, utilities = None, imageUrls = []\<rparr> \<and>
   map_option (\<lambda>m. groups m 1) (stated_rate_v2 ''Rent $2,500 1,200 SF $30.00/yr'') = Some (Some ''30.00'') \<and>
   extractListingData (Element ''li'' [] [Text ''1,200 SF'']) ''ab12'' = Inr
     \<lparr>lid = ''ab12'', title = ''Listing ab12'', address = None, city = None, ptype = ''Commercial'',
      rent = None, sqft = Some (Num 1200), rentPerSF = None, description = [],
      available = ''Contact for availability'', status = ''coming-soon'', imageUrl = None,
      detailUrl = ''https://greyrockcommercial.appfolio.com/listings/detail/ab12'',
      applyUrl = ''https://greyrockcommercial.appfolio.com/listings/rental_applications/new?listable_uid=ab12&source=Website''\<rparr> \<and>
   js_match ''1,200 SF'' re_rent_sf_v1 = None \<and>
   parseDetailPage (page [Text ''Rent $2,500 1,200 SF'']) ''ab12'' = Inr
     \<lparr>lid = ''ab12'', title = ''Listing ab12'', address = None, city = None, ptype = ''Commercial'',
      rent = Some (Num 2500), sqft = Some (Num 1200), rentPerSF = None, description = [],
      available = ''Contact for availability'', status = ''coming-soon'', imageUrl = None,
      detailUrl = ''https://greyrockcommercial.appfolio.com/listings/detail/ab12'',
      applyUrl = ''https://greyrockcommercial.appfolio.com/listings/rental_applications/new?listable_uid=ab12&source=Website'',
      leaseType = None, utilities = None, imageUrls = []\<rparr> \<and>
   stated_rate_v2 ''Rent $2,500 1,200 SF'' = None"
  (is "?e1 = Inr ?R1 \<and> ?B \<and> ?Y \<and> ?e3 = Inr ?R3 \<and> ?F \<and> ?e2 = Inr ?R2 \<and> ?D \<and>
       ?e4 = Inr ?R4 \<and> ?G \<and> ?e5 = Inr ?R5 \<and> ?H")
proof -
  have a: "?e1 = Inr ?R1" by code_simp
  have b: ?B by code_simp
  have c: "?e2 = Inr ?R2" by code_simp
  have d: ?D by code_simp
  have f: "?e3 = Inr ?R3" by code_simp
  have g: ?F by code_simp
  have h: "?e4 = Inr ?R4" by code_simp
  have i: ?G by code_simp
  have j: "?e5 = Inr ?R5" by code_simp
  have k: ?H by code_simp
  have t: "body_text (page [Text ''Rent $2,500 1,200 SF $30.00/yr'']) = ''Rent $2,500 1,200 SF $30.00/yr''"
    "body_text (page [Text ''Rent $2,500 1,200 SF'']) = ''Rent $2,500 1,200 SF''"
    by (simp_all add: body_text_def page_def doc_body_def)
  have y: ?Y
    using rent_per_area [where cardEl = "Element ''li'' [] [Text ''$2,500 1,200 SF'']"
        and uuid = "''ab12''" and doc = "page [Text ''Rent $2,500 1,200 SF $30.00/yr'']"
        and la = ?R1 and lb = ?R2] a b c d t(1)
    by auto
  have "rentPerSF ?R3 = Some (parseFloat ''24.50'')"
    using rent_per_area [where cardEl = "Element ''li'' [] [Text ''$2,500 1,200 SF $24.50/yr'']"
        and uuid = "''ab12''" and doc = "page [Text ''Rent $2,500 1,200 SF $30.00/yr'']"
        and la = ?R3 and lb = ?R2] f g c
    by auto
  moreover have "rentPerSF ?R4 = None" "rentPerSF ?R5 = None"
    using rent_per_area [where cardEl = "Element ''li'' [] [Text ''1,200 SF'']"
        and uuid = "''ab12''" and doc = "page [Text ''Rent $2,500 1,200 SF'']"
        and la = ?R4 and lb = ?R5] h i j k t(2)
    by simp_all
  ultimately show ?thesis using a b c d f g h i j k y by simp
qed

section \<open>Identifiers of the index page\<close>

subsection \<open>new Set\<close>

lemma set_set_add: "set (set_add acc x) = insert x (set acc)"
  by (auto simp: set_add_def)

lemma distinct_set_add: "distinct acc \<Longrightarrow> distinct (set_add acc x)"
  by (auto simp: set_add_def)

lemma foldl_set_add_snoc: "foldl set_add acc (xs @ [x]) = set_add (foldl set_add acc xs) x"
  by simp

lemma set_foldl_set_add: "set (foldl set_add acc xs) = set acc \<union> set xs"
  by (induction xs arbitrary: acc) (auto simp: set_set_add)

lemma distinct_foldl_set_add: "distinct acc \<Longrightarrow> distinct (foldl set_add acc xs)"
  by (induction xs arbitrary: acc) (auto simp: distinct_set_add)

lemma foldl_set_add_prefix:
  "\<exists>ys. foldl set_add acc xs = acc @ ys \<and> set ys \<inter> set acc = {} \<and> set ys \<subseteq> set xs"
proof (induction xs arbitrary: acc)
  case Nil
  then show ?case by simp
next
  case (Cons x xs)
  show ?case
  proof (cases "x \<in> set acc")
    case True
    then have "set_add acc x = acc" by (simp add: set_add_def)
    then show ?thesis using Cons [of acc] by auto
  next
    case False
    then have a: "set_add acc x = acc @ [x]" by (simp add: set_add_def)
    obtain ys where ys: "foldl set_add (acc @ [x]) xs = (acc @ [x]) @ ys"
      "set ys \<inter> set (acc @ [x]) = {}" "set ys \<subseteq> set xs"
      using Cons [of "acc @ [x]"] by blast
    have "foldl set_add acc (x # xs) = acc @ (x # ys)" using a ys(1) by simp
    moreover have "set (x # ys) \<inter> set acc = {}" using ys(2) False by auto
    moreover have "set (x # ys) \<subseteq> set (x # xs)" using ys(3) by auto
    ultimately show ?thesis by blast
  qed
qed

lemma first_index_append_in: "x \<in> set xs \<Longrightarrow> first_index (xs @ ys) x = first_index xs x"
  by (induction xs) (auto simp: first_index_def)

lemma first_index_less: "x \<in> set xs \<Longrightarrow> first_index xs x < length xs"
  by (induction xs) (auto simp: first_index_def)

lemma first_index_append_notin: "x \<notin> set xs \<Longrightarrow> first_index (xs @ [x]) x = length xs"
  by (induction xs) (auto simp: first_index_def)

lemma new_Set_order: "first_seen_order xs (new_Set xs)"
proof (induction xs rule: rev_induct)
  case Nil
  then show ?case by (simp add: first_seen_order_def new_Set_def)
next
  case (snoc x xs)
  have s: "set (new_Set xs) = set xs" by (simp add: new_Set_def set_foldl_set_add)
  have mono: "sorted_wrt (\<lambda>u v. first_index (xs @ [x]) u < first_index (xs @ [x]) v) (new_Set xs)"
    using snoc unfolding first_seen_order_def
    by (rule sorted_wrt_mono_rel [rotated]) (simp add: s first_index_append_in)
  show ?case
  proof (cases "x \<in> set xs")
    case True
    then show ?thesis using mono s by (simp add: first_seen_order_def new_Set_def set_add_def)
  next
    case False
    have "\<forall>u \<in> set (new_Set xs). first_index (xs @ [x]) u < first_index (xs @ [x]) x"
      using False s by (simp add: first_index_append_in first_index_append_notin first_index_less)
    then show ?thesis using mono s False
      by (simp add: first_seen_order_def new_Set_def set_add_def sorted_wrt_append)
  qed
qed

lemma first_seen_order_filter: "first_seen_order xs ys \<Longrightarrow> first_seen_order xs (filter P ys)"
  unfolding first_seen_order_def by (rule sorted_wrt_filter)

lemma step_char_rest: "st' \<in> set (step_char p st) \<Longrightarrow> Suc (length (rest st')) = length (rest st)"
  by (cases "rest st") (auto simp: step_char_def split: if_splits)

lemma rm_rest_le:
  "st' \<in> set (rm ci r st) \<Longrightarrow> length (rest st') \<le> length (rest st)"
proof (induction ci r st arbitrary: st' rule: rm.induct)
  case (5 ci a b st)
  then obtain st1 where "st1 \<in> set (rm ci a st)" "st' \<in> set (rm ci b st1)" by auto
  then show ?case using 5(1) [of st1] 5(2) [of st1 st'] by simp
next
  case (7 ci m a st)
  then show ?case by (auto simp: capture_def)
next
  case (11 ci mn mx g a st)
  show ?case
  proof (cases "mx = Some 0")
    case True
    then show ?thesis using 11(3) by (simp add: rm.simps(11))
  next
    case False
    define again where "again = concat (map (\<lambda>st'.
                 if length (rest st) < length (rest st') \<or>
                    (mn = 0 \<and> length (rest st') = length (rest st))
                 then []
                 else rm ci (RRep (mn - 1) (map_option (\<lambda>m. m - 1) mx) g a) st')
               (rm ci a (reset a st)))"
    have in_again: "length (rest x) \<le> length (rest st)" if "x \<in> set again" for x
    proof -
      from that obtain st1 where s1: "st1 \<in> set (rm ci a (reset a st))"
        and g: "\<not> (length (rest st) < length (rest st1) \<or> (mn = 0 \<and> length (rest st1) = length (rest st)))"
        and x: "x \<in> set (rm ci (RRep (mn - 1) (map_option (\<lambda>m. m - 1) mx) g a) st1)"
        unfolding again_def by (auto split: if_splits)
      have "length (rest x) \<le> length (rest st1)" using 11(2) [OF False s1 g x] .
      then show ?thesis using g by simp
    qed
    have "st' \<in> set again \<or> st' = st"
      using 11(3) False unfolding rm.simps(11) [of ci mn mx g a st] again_def [symmetric]
      by (auto simp: Let_def split: if_splits)
    then show ?thesis using in_again by auto
  qed
qed (auto dest: step_char_rest)

lemma rplus_consumes:
  assumes "st' \<in> set (rm ci (rplus (RChars cs)) st)"
  shows "length (rest st') < length (rest st)"
proof -
  from assms obtain st1 where s1: "st1 \<in> set (step_char (class_has ci cs) (reset (RChars cs) st))"
    and s2: "st' \<in> set (rm ci (RRep 0 None True (RChars cs)) st1)"
    unfolding rplus_def rm.simps(11) [of ci 1 None True "RChars cs" st]
    by (auto simp: Let_def split: if_splits)
  have "Suc (length (rest st1)) = length (rest st)"
    using step_char_rest [OF s1] by (simp add: reset_def)
  then show ?thesis using rm_rest_le [OF s2] by simp
qed

lemma uuid_capture:
  assumes "st' \<in> set (rm False (snd re_uuid) st)"
  shows "\<exists>u. caps st' 1 = Some u \<and> u \<noteq> []"
proof -
  let ?cs = "[CRange (CHR ''a'') (CHR ''f''), CRange (CHR ''0'') (CHR ''9''), CLit (CHR ''-'')]"
  have re: "snd re_uuid = RSeq (lit ''/listings/detail/'') (RGroup 1 (rplus (RChars ?cs)))"
    by (simp add: re_uuid_def)
  from assms obtain st1 st2 where "st2 \<in> set (rm False (rplus (RChars ?cs)) st1)"
    and st': "st' = capture 1 st1 st2"
    unfolding re by auto
  then have "length (rest st2) < length (rest st1)" using rplus_consumes by blast
  then have "take (length (rest st1) - length (rest st2)) (rest st1) \<noteq> []" by auto
  then show ?thesis unfolding st' by (simp add: capture_def)
qed

lemma exec_at_caps:
  assumes "exec_at ci r p s = Some m" and "\<And>st st'. st' \<in> set (rm ci r st) \<Longrightarrow> Q (caps st')"
  shows "Q (groups m)"
proof -
  from assms(1) obtain st' sts where "rm ci r \<lparr>prev = p, rest = s, caps = (\<lambda>k. None)\<rparr> = st' # sts"
    and "groups m = caps st'"
    unfolding exec_at_def by (auto split: list.splits)
  then show ?thesis using assms(2) [of st' "\<lparr>prev = p, rest = s, caps = (\<lambda>k. None)\<rparr>"] by simp
qed

lemma rx_search_caps:
  assumes "rx_search ci r p s = Some m" and "\<And>st st'. st' \<in> set (rm ci r st) \<Longrightarrow> Q (caps st')"
  shows "Q (groups m)"
  using assms(1)
proof (induction s arbitrary: p)
  case Nil
  then show ?case using exec_at_caps [of ci r p "[]" m Q] assms(2) by simp
next
  case (Cons c s)
  show ?case
  proof (cases "exec_at ci r p (c # s)")
    case None
    then show ?thesis using Cons by simp
  next
    case (Some m')
    then have "m' = m" using Cons.prems by simp
    then show ?thesis using exec_at_caps [of ci r p "c # s" m Q] assms(2) Some by simp
  qed
qed

lemma link_uuid_nonempty: "link_uuid link = Some u \<Longrightarrow> u \<noteq> []"
proof -
  assume a: "link_uuid link = Some u"
  then obtain href m where "js_match href re_uuid = Some m" and g: "groups m 1 = Some u"
    by (auto simp: link_uuid_def split: option.splits)
  then have "rx_search False (snd re_uuid) None href = Some m"
    by (simp add: js_match_def re_uuid_def)
  then have "\<exists>u. groups m 1 = Some u \<and> u \<noteq> []"
    by (rule rx_search_caps [where Q = "\<lambda>c. \<exists>u. c 1 = Some u \<and> u \<noteq> []"]) (rule uuid_capture)
  then show ?thesis using g by simp
qed

lemma filter_Boolean_ids: "filter_Boolean (map (\<lambda>link. link_uuid (fst link)) links) = ids_of links"
proof -
  have "(case link_uuid l of None \<Rightarrow> [] | Some u \<Rightarrow> if u \<noteq> [] then [u] else []) =
        (case link_uuid l of None \<Rightarrow> [] | Some u \<Rightarrow> [u])" for l
    using link_uuid_nonempty [of l] by (auto split: option.splits)
  then show ?thesis by (simp add: filter_Boolean_def ids_of_def comp_def)
qed

lemma new_Set_props:
  "distinct (new_Set xs)" "set (new_Set xs) = set xs" "first_seen_order xs (new_Set xs)"
  by (simp_all add: new_Set_def distinct_foldl_set_add set_foldl_set_add new_Set_order [unfolded new_Set_def])

lemma parseIndexPage_uuids:
  assumes "parseIndexPage doc = Inr r"
  shows "uuids r = new_Set (anchor_ids doc)"
proof (cases "anchors doc = []")
  case True
  then show ?thesis using assms
    by (auto simp: parseIndexPage_def anchors_def anchor_ids_def ids_of_def new_Set_def
        split: option.splits if_splits)
next
  case False
  then show ?thesis using assms
    by (auto simp: parseIndexPage_def anchors_def [symmetric] anchor_ids_def filter_Boolean_ids Let_def)
qed

lemma link_step_cases:
  assumes "link_step link (seen, acc) = Inr st'"
  shows "(link_uuid (fst link) = None \<and> st' = (seen, acc)) \<or>
         (\<exists>u. link_uuid (fst link) = Some u \<and> u \<in> set seen \<and> st' = (seen, acc)) \<or>
         (\<exists>u. link_uuid (fst link) = Some u \<and> u \<notin> set seen \<and> find_card link = None \<and>
              st' = (seen @ [u], acc)) \<or>
         (\<exists>u c l. link_uuid (fst link) = Some u \<and> u \<notin> set seen \<and> find_card link = Some c \<and>
              extractListingData c u = Inr l \<and> st' = (seen @ [u], acc @ [l]))"
  using assms
  by (auto simp: link_step_def link_uuid_def bindE_def capture_of_def set_add_def Let_def
      split: option.splits sum.splits if_splits)

lemma carded_Cons:
  "carded (link # links) v =
     (if link_uuid (fst link) = Some v then find_card link \<noteq> None else carded links v)"
  by (simp add: carded_def)

lemma ids_of_Cons:
  "ids_of (link # links) = (case link_uuid (fst link) of None \<Rightarrow> [] | Some u \<Rightarrow> [u]) @ ids_of links"
  by (simp add: ids_of_def)

lemma forEach_link_step:
  assumes "forEach link_step links (seen0, acc0) = Inr (seen, acc)"
  shows "seen = foldl set_add seen0 (ids_of links) \<and>
         map lid acc = map lid acc0 @ filter (carded links) (drop (length seen0) seen)"
  using assms
proof (induction links arbitrary: seen0 acc0)
  case Nil
  then show ?case by (simp add: ids_of_def)
next
  case (Cons link links)
  from Cons.prems obtain st1 where step: "link_step link (seen0, acc0) = Inr st1"
    and rest: "forEach link_step links st1 = Inr (seen, acc)"
    by (auto simp: bindE_def split: sum.splits)
  obtain seen1 acc1 where st1: "st1 = (seen1, acc1)" by (cases st1)
  note IH = Cons.IH [OF rest [unfolded st1]]
  obtain ys where ys: "seen = seen1 @ ys" "set ys \<inter> set seen1 = {}"
    using IH foldl_set_add_prefix [of seen1 "ids_of links"] by auto
  have dr: "drop (length seen1) seen = ys" using ys(1) by simp
  have acc: "map lid acc = map lid acc1 @ filter (carded links) ys" using IH dr by simp
  have seen: "seen = foldl set_add seen1 (ids_of links)" using IH by simp
  from link_step_cases [OF step] show ?case
  proof (elim disjE exE conjE)
    assume n: "link_uuid (fst link) = None" and s: "st1 = (seen0, acc0)"
    have e: "seen1 = seen0" "acc1 = acc0" using s st1 by simp_all
    have "carded (link # links) = carded links" using n by (auto simp: carded_Cons)
    moreover have "ids_of (link # links) = ids_of links" using n by (simp add: ids_of_Cons)
    ultimately show ?thesis using seen acc dr e by simp
  next
    fix u assume u: "link_uuid (fst link) = Some u" "u \<in> set seen0" and s: "st1 = (seen0, acc0)"
    have e: "seen1 = seen0" "acc1 = acc0" using s st1 by simp_all
    have f: "filter (carded (link # links)) ys = filter (carded links) ys"
      using ys(2) u e by (intro filter_cong) (auto simp: carded_Cons)
    have "set_add seen0 u = seen0" using u(2) by (simp add: set_add_def)
    then have "foldl set_add seen0 (ids_of (link # links)) = foldl set_add seen0 (ids_of links)"
      using u(1) by (simp add: ids_of_Cons)
    then show ?thesis using seen acc dr e f by simp
  next
    fix u assume u: "link_uuid (fst link) = Some u" "u \<notin> set seen0" "find_card link = None"
      and s: "st1 = (seen0 @ [u], acc0)"
    have e: "seen1 = seen0 @ [u]" "acc1 = acc0" using s st1 by simp_all
    have f: "filter (carded (link # links)) ys = filter (carded links) ys"
      using ys(2) u e by (intro filter_cong) (auto simp: carded_Cons)
    have c: "\<not> carded (link # links) u" using u by (simp add: carded_Cons)
    have d: "drop (length seen0) seen = u # ys" using ys(1) e by simp
    have "set_add seen0 u = seen0 @ [u]" using u(2) by (simp add: set_add_def)
    then have "foldl set_add seen0 (ids_of (link # links)) = foldl set_add (seen0 @ [u]) (ids_of links)"
      using u(1) by (simp add: ids_of_Cons)
    then show ?thesis using seen acc e f c d by simp
  next
    fix u c l assume u: "link_uuid (fst link) = Some u" "u \<notin> set seen0" "find_card link = Some c"
      and l: "extractListingData c u = Inr l" and s: "st1 = (seen0 @ [u], acc0 @ [l])"
    have e: "seen1 = seen0 @ [u]" "acc1 = acc0 @ [l]" using s st1 by simp_all
    have f: "filter (carded (link # links)) ys = filter (carded links) ys"
      using ys(2) u e by (intro filter_cong) (auto simp: carded_Cons)
    have c: "carded (link # links) u" using u by (simp add: carded_Cons)
    have d: "drop (length seen0) seen = u # ys" using ys(1) e by simp
    have i: "lid l = u" using extractListingData_fields(1) [OF l] .
    have "set_add seen0 u = seen0 @ [u]" using u(2) by (simp add: set_add_def)
    then have "foldl set_add seen0 (ids_of (link # links)) = foldl set_add (seen0 @ [u]) (ids_of links)"
      using u(1) by (simp add: ids_of_Cons)
    then show ?thesis using seen acc e f c d i by simp
  qed
qed

lemma has_card_eq: "has_card doc = carded (anchors doc)"
  by (rule ext) (simp add: has_card_def)

lemma parseListings_ids:
  assumes "parseListings doc = Inr r"
  shows "map lid (listings r) = filter (has_card doc) (new_Set (anchor_ids doc))"
proof (cases "anchors doc = []")
  case True
  then show ?thesis using assms
    by (auto simp: parseListings_def anchors_def anchor_ids_def ids_of_def new_Set_def
        split: option.splits if_splits)
next
  case False
  then obtain st where st: "forEach link_step (anchors doc) ([], []) = Inr st"
    and r: "listings r = snd st"
    using assms by (auto simp: parseListings_def anchors_def bindE_def Let_def split: sum.splits)
  obtain seen acc where "st = (seen, acc)" by (cases st)
  then show ?thesis using forEach_link_step [of "anchors doc" "[]" "[]" seen acc] st r
    by (simp add: has_card_eq anchor_ids_def new_Set_def)
qed

text \<open>
  Claim C5, amended. The identifier list of \<^verbatim>\<open>parseIndexPage\<close> holds every
  identifier of the page's detail links exactly once, in the order of first
  occurrence. The records of \<^verbatim>\<open>parseListings\<close> have distinct identifiers, in the
  order of first occurrence; an identifier has a record exactly when a card
  container is found for the first link that carries it, so it has one record or
  none.
\<close>

theorem one_entry_per_identifier:
  "(parseIndexPage doc = Inr rb \<longrightarrow>
      distinct (uuids rb) \<and> set (uuids rb) = set (anchor_ids doc) \<and>
      first_seen_order (anchor_ids doc) (uuids rb)) \<and>
   (parseListings doc = Inr ra \<longrightarrow>
      distinct (map lid (listings ra)) \<and>
      set (map lid (listings ra)) = {u \<in> set (anchor_ids doc). has_card doc u} \<and>
      first_seen_order (anchor_ids doc) (map lid (listings ra)))"
  using parseIndexPage_uuids [of doc rb] parseListings_ids [of doc ra]
  by (auto simp: new_Set_props first_seen_order_filter)

text \<open>
  Claim C5 as stated fails in version 1: a link for which no card container is found
  is skipped, so its identifier has no record.
\<close>

theorem one_entry_per_identifier_counterexample:
  "anchor_ids (page [Element ''a'' [(''href'', ''/listings/detail/ab12'')] [Text ''View'']]) = [''ab12''] \<and>
   parseListings (page [Element ''a'' [(''href'', ''/listings/detail/ab12'')] [Text ''View'']]) =
     Inr \<lparr>listings = [], noVacancies = False\<rparr>"
  by code_simp

theorem one_entry_per_identifier_witness:
  "parseIndexPage two_links = Inr \<lparr>uuids = [''ab12'', ''cd34''], noVacancies2 = False\<rparr> \<and>
   anchor_ids two_links = [''ab12'', ''ab12'', ''cd34''] \<and>
   first_seen_order [''ab12'', ''ab12'', ''cd34''] [''ab12'', ''cd34''] \<and>
   parseListings two_links = Inr \<lparr>listings = [
     \<lparr>lid = ''ab12'', title = ''Listing ab12'', address = None, city = None, ptype = ''Commercial'',
      rent = None, sqft = None, rentPerSF = None, description = [],
      available = ''Contact for availability'', status = ''coming-soon'', imageUrl = None,
      detailUrl = ''https://greyrockcommercial.appfolio.com/listings/detail/ab12'',
      applyUrl = ''https://greyrockcommercial.appfolio.com/listings/rental_applications/new?listable_uid=ab12&source=Website''\<rparr>,
     \<lparr>lid = ''cd34'', title = ''Listing cd34'', address = None, city = None, ptype = ''Commercial'',
      rent = None, sqft = None, rentPerSF = None, description = [],
      available = ''Contact for availability'', status = ''coming-soon'', imageUrl = None,
      detailUrl = ''https://greyrockcommercial.appfolio.com/listings/detail/cd34'',
      applyUrl = ''https://greyrockcommercial.appfolio.com/listings/rental_applications/new?listable_uid=cd34&source=Website''\<rparr>],
     noVacancies = False\<rparr> \<and>
   {u \<in> set [''ab12'', ''ab12'', ''cd34'']. has_card two_links u} = {''ab12'', ''cd34''}"
  (is "?e1 = Inr ?R1 \<and> ?B \<and> ?C \<and> ?e2 = Inr ?R2 \<and> ?E")
proof -
  have a: "?e1 = Inr ?R1" by code_simp
  have b: ?B by code_simp
  have d: "?e2 = Inr ?R2" by code_simp
  show ?thesis
    using one_entry_per_identifier [where doc = two_links and rb = ?R1 and ra = ?R2] a b d
    by auto
qed

section \<open>Status\<close>

lemma now_letters:
  "class_has True [CLit (CHR ''n'')] c = (to_lower c = CHR ''n'')"
  "class_has True [CLit (CHR ''o'')] c = (to_lower c = CHR ''o'')"
  "class_has True [CLit (CHR ''w'')] c = (to_lower c = CHR ''w'')"
proof -
  obtain b0 b1 b2 b3 b4 b5 b6 b7 where c: "c = Char b0 b1 b2 b3 b4 b5 b6 b7" by (cases c)
  show "class_has True [CLit (CHR ''n'')] c = (to_lower c = CHR ''n'')"
    unfolding c class_has_def to_upper_bits to_lower_bits in_range_bits by auto
  show "class_has True [CLit (CHR ''o'')] c = (to_lower c = CHR ''o'')"
    unfolding c class_has_def to_upper_bits to_lower_bits in_range_bits by auto
  show "class_has True [CLit (CHR ''w'')] c = (to_lower c = CHR ''w'')"
    unfolding c class_has_def to_upper_bits to_lower_bits in_range_bits by auto
qed

lemma exec_now: "(exec_at True (lit ''now'') p s \<noteq> None) = prefix ''now'' (map to_lower s)"
  by (auto simp: exec_at_def step_char_def now_letters split: list.splits)

lemma search_now: "(rx_search True (lit ''now'') p s \<noteq> None) = str_includes (map to_lower s) ''now''"
proof (induction s arbitrary: p)
  case Nil
  then show ?case using exec_now [of p "[]"] by simp
next
  case (Cons c s)
  have "(rx_search True (lit ''now'') p (c # s) \<noteq> None) =
        (exec_at True (lit ''now'') p (c # s) \<noteq> None \<or> rx_search True (lit ''now'') (Some c) s \<noteq> None)"
    by (auto split: option.splits)
  then show ?case using Cons [of "Some c"] exec_now [of p "c # s"] by simp
qed

lemma test_now: "js_test re_now s = str_includes (map to_lower s) ''now''"
  using search_now [of None s] by (simp add: js_test_def js_match_def re_now_def)

lemma step_char_consumed:
  "st' \<in> set (step_char p st) \<Longrightarrow> \<exists>c. rest st = c # rest st' \<and> p c"
  by (cases "rest st") (auto simp: step_char_def split: if_splits)

lemma rm_consumed:
  "st' \<in> set (rm ci r st) \<Longrightarrow> \<exists>u. rest st = u @ rest st' \<and> set u \<subseteq> chars_of ci r"
proof (induction ci r st arbitrary: st' rule: rm.induct)
  case (1 ci cs st)
  then obtain c where "rest st = c # rest st'" "class_has ci cs c"
    using step_char_consumed [of st' "class_has ci cs" st] by auto
  then show ?case by (intro exI [of _ "[c]"]) simp
next
  case (2 ci cs st)
  then obtain c where "rest st = c # rest st'" "\<not> class_has ci cs c"
    using step_char_consumed [of st' "\<lambda>c. \<not> class_has ci cs c" st] by auto
  then show ?case by (intro exI [of _ "[c]"]) simp
next
  case (3 ci st)
  then obtain c where "rest st = c # rest st'" "\<not> is_line_terminator c"
    using step_char_consumed [of st' "\<lambda>c. \<not> is_line_terminator c" st] by auto
  then show ?case by (intro exI [of _ "[c]"]) simp
next
  case (5 ci a b st)
  then obtain st1 where s: "st1 \<in> set (rm ci a st)" "st' \<in> set (rm ci b st1)" by auto
  obtain u where u: "rest st = u @ rest st1" "set u \<subseteq> chars_of ci a" using 5(1) [OF s(1)] by blast
  obtain v where v: "rest st1 = v @ rest st'" "set v \<subseteq> chars_of ci b" using 5(2) [OF s] by blast
  show ?case using u v by (intro exI [of _ "u @ v"]) auto
next
  case (6 ci a b st)
  then show ?case by fastforce
next
  case (7 ci n a st)
  then obtain st1 where "st1 \<in> set (rm ci a st)" "st' = capture n st st1" by auto
  then show ?case using 7(1) [of st1] by (simp add: capture_def)
next
  case (11 ci mn mx g a st)
  show ?case
  proof (cases "mx = Some 0")
    case True
    then show ?thesis using 11(3) by (simp add: rm.simps(11))
  next
    case False
    define again where "again = concat (map (\<lambda>st'.
                 if length (rest st) < length (rest st') \<or>
                    (mn = 0 \<and> length (rest st') = length (rest st))
                 then []
                 else rm ci (RRep (mn - 1) (map_option (\<lambda>m. m - 1) mx) g a) st')
               (rm ci a (reset a st)))"
    have in_again: "\<exists>u. rest st = u @ rest x \<and> set u \<subseteq> chars_of ci a" if "x \<in> set again" for x
    proof -
      from that obtain st1 where s1: "st1 \<in> set (rm ci a (reset a st))"
        and g: "\<not> (length (rest st) < length (rest st1) \<or> (mn = 0 \<and> length (rest st1) = length (rest st)))"
        and x: "x \<in> set (rm ci (RRep (mn - 1) (map_option (\<lambda>m. m - 1) mx) g a) st1)"
        unfolding again_def by (auto split: if_splits)
      obtain u where u: "rest (reset a st) = u @ rest st1" "set u \<subseteq> chars_of ci a"
        using 11(1) [OF False s1] by blast
      obtain v where v: "rest st1 = v @ rest x" "set v \<subseteq> chars_of ci a"
        using 11(2) [OF False s1 g x] by auto
      show ?thesis using u v by (intro exI [of _ "u @ v"]) (auto simp: reset_def)
    qed
    have "st' \<in> set again \<or> st' = st"
      using 11(3) False unfolding rm.simps(11) [of ci mn mx g a st] again_def [symmetric]
      by (auto simp: Let_def split: if_splits)
    then show ?thesis using in_again by auto
  qed
qed (auto split: if_splits)

lemma group_consumed:
  assumes "st' \<in> set (rm ci (RGroup n a) st)"
  shows "\<exists>u. caps st' n = Some u \<and> set u \<subseteq> chars_of ci a"
proof -
  from assms obtain st1 where s: "st1 \<in> set (rm ci a st)" and st': "st' = capture n st st1" by auto
  obtain u where u: "rest st = u @ rest st1" "set u \<subseteq> chars_of ci a" using rm_consumed [OF s] by blast
  have "take (length (rest st) - length (rest st1)) (rest st) = u" using u(1) by simp
  then show ?thesis using u(2) unfolding st' by (simp add: capture_def)
qed

lemma last_group:
  assumes "st' \<in> set (rm ci (RSeq a (RSeq b (RGroup n g))) st)"
  shows "\<exists>st1. st' \<in> set (rm ci (RGroup n g) st1)"
  using assms by auto

lemma date_chars:
  "class_has True [CDigit] c \<or> class_has True [CLit (CHR ''/'')] c \<Longrightarrow> to_lower c \<noteq> CHR ''n''"
proof -
  obtain b0 b1 b2 b3 b4 b5 b6 b7 where c: "c = Char b0 b1 b2 b3 b4 b5 b6 b7" by (cases c)
  show "class_has True [CDigit] c \<or> class_has True [CLit (CHR ''/'')] c \<Longrightarrow> to_lower c \<noteq> CHR ''n''"
    unfolding c by (auto simp: class_has_def is_digit_def to_upper_bits to_lower_bits in_range_bits
        split: if_splits)
qed

lemma token_letters:
  "class_has True [CLit (CHR ''N'')] c = (to_lower c = CHR ''n'')"
  "to_lower c = CHR ''n'' \<Longrightarrow> \<not> is_space c"
  "to_lower c = CHR ''w'' \<Longrightarrow> \<not> is_space c"
proof -
  obtain b0 b1 b2 b3 b4 b5 b6 b7 where c: "c = Char b0 b1 b2 b3 b4 b5 b6 b7" by (cases c)
  show "class_has True [CLit (CHR ''N'')] c = (to_lower c = CHR ''n'')"
    unfolding c class_has_def to_upper_bits to_lower_bits in_range_bits by auto
  show "to_lower c = CHR ''n'' \<Longrightarrow> \<not> is_space c"
    unfolding c is_space_def to_lower_bits in_range_bits by (auto split: if_splits)
  show "to_lower c = CHR ''w'' \<Longrightarrow> \<not> is_space c"
    unfolding c is_space_def to_lower_bits in_range_bits by (auto split: if_splits)
qed

lemma str_includes_set: "str_includes s t \<Longrightarrow> set t \<subseteq> set s"
proof (induction s)
  case Nil
  then show ?case by simp
next
  case (Cons c s)
  then show ?case using set_mono_prefix [of t "c # s"] by auto
qed

lemma trim_set: "set (trim s) \<subseteq> set s"
  by (auto simp: trim_def dest!: set_dropWhileD)

lemma slashes_capture:
  assumes "js_match t re_available_slashes = Some m"
  shows "\<exists>g. groups m 1 = Some g \<and> (\<forall>c \<in> set g. to_lower c \<noteq> CHR ''n'')"
proof -
  let ?G = "seqs [rtimes 1 2 rdigit, lit ''/'', rtimes 1 2 rdigit, lit ''/'', rtimes 2 4 rdigit]"
  have ch: "chars_of True ?G = {c. class_has True [CDigit] c \<or> class_has True [CLit (CHR ''/'')] c}"
    by (auto simp: rtimes_def rdigit_def)
  have "\<exists>u. caps st' 1 = Some u \<and> set u \<subseteq> chars_of True ?G"
    if "st' \<in> set (rm True (snd re_available_slashes) st)" for st st'
  proof -
    have "\<exists>st1. st' \<in> set (rm True (RGroup 1 ?G) st1)"
      using that unfolding re_available_slashes_def by (intro last_group [where a = "alts [lit ''AVAILABLE'', lit ''Available'']" and b = rspaces1]) simp
    then show ?thesis using group_consumed by blast
  qed
  moreover have "rx_search True (snd re_available_slashes) None t = Some m"
    using assms by (simp add: js_match_def re_available_slashes_def)
  ultimately have "\<exists>u. groups m 1 = Some u \<and> set u \<subseteq> chars_of True ?G"
    by (intro rx_search_caps [where Q = "\<lambda>c. \<exists>u. c 1 = Some u \<and> set u \<subseteq> chars_of True ?G"]) 
  then show ?thesis unfolding ch using date_chars by blast
qed

lemma token_capture:
  assumes "js_match t re_available_now_v2 = Some m"
  shows "\<exists>a b c. groups m 1 = Some [a, b, c] \<and> to_lower a = CHR ''n'' \<and> to_lower b = CHR ''o'' \<and>
           to_lower c = CHR ''w''"
proof -
  have g: "\<exists>a b c. caps st' 1 = Some [a, b, c] \<and> to_lower a = CHR ''n'' \<and> to_lower b = CHR ''o'' \<and>
           to_lower c = CHR ''w''"
    if "st' \<in> set (rm True (RGroup 1 (lit ''Now'')) st1)" for st1 st'
  proof -
    from that obtain st3 where s: "st3 \<in> set (rm True (lit ''Now'') st1)" and st': "st' = capture 1 st1 st3"
      by auto
    from s obtain s1 s2 where "s1 \<in> set (step_char (class_has True [CLit (CHR ''N'')]) st1)"
      "s2 \<in> set (step_char (class_has True [CLit (CHR ''o'')]) s1)"
      "st3 \<in> set (step_char (class_has True [CLit (CHR ''w'')]) s2)"
      by auto
    then obtain a b c where "rest st1 = a # rest s1" "rest s1 = b # rest s2" "rest s2 = c # rest st3"
      "to_lower a = CHR ''n''" "to_lower b = CHR ''o''" "to_lower c = CHR ''w''"
      using step_char_consumed [of s1 _ st1] step_char_consumed [of s2 _ s1] step_char_consumed [of st3 _ s2]
      unfolding now_letters token_letters by blast
    then show ?thesis unfolding st' by (auto simp: capture_def)
  qed
  have "\<exists>a b c. caps st' 1 = Some [a, b, c] \<and> to_lower a = CHR ''n'' \<and> to_lower b = CHR ''o'' \<and>
           to_lower c = CHR ''w''"
    if "st' \<in> set (rm True (snd re_available_now_v2) st)" for st st'
  proof -
    have "\<exists>st1. st' \<in> set (rm True (RGroup 1 (lit ''Now'')) st1)"
      using that unfolding re_available_now_v2_def by (intro last_group [where a = "alts [lit ''AVAILABLE'', lit ''Available'']" and b = rspaces1]) simp
    then show ?thesis using g by blast
  qed
  moreover have "rx_search True (snd re_available_now_v2) None t = Some m"
    using assms by (simp add: js_match_def re_available_now_v2_def)
  ultimately show ?thesis
    by (intro rx_search_caps [where Q = "\<lambda>k. \<exists>a b c. k 1 = Some [a, b, c] \<and> to_lower a = CHR ''n'' \<and>
          to_lower b = CHR ''o'' \<and> to_lower c = CHR ''w''"])
qed

lemma default_availability:
  "\<not> str_includes (map to_lower ''Contact for availability'') ''now''"
  "map to_lower ''Contact for availability'' \<noteq> ''now''"
  by code_simp+

lemma token_status:
  assumes "extract_available_v2 t = Inr av" and "\<not> worded_date_v2 t"
  shows "js_test re_now av = (map to_lower av = ''now'')"
proof (cases "js_match t re_available_slashes")
  case (Some m)
  then obtain g where g: "groups m 1 = Some g" "\<forall>c \<in> set g. to_lower c \<noteq> CHR ''n''"
    using slashes_capture by blast
  have av: "av = trim g" using assms(1) Some g(1)
    by (simp add: extract_available_v2_def or_match_def bindE_def capture_of_def)
  have n: "CHR ''n'' \<notin> set (map to_lower av)" using g(2) trim_set [of g] unfolding av by auto
  then have "\<not> str_includes (map to_lower av) ''now''" using str_includes_set [of "map to_lower av" "''now''"] by auto
  moreover have "map to_lower av \<noteq> ''now''" using n by auto
  ultimately show ?thesis by (simp add: test_now)
next
  case None
  show ?thesis
  proof (cases "js_match t re_available_now_v2")
    case (Some m)
    then obtain a b c where g: "groups m 1 = Some [a, b, c]" "to_lower a = CHR ''n''"
      "to_lower b = CHR ''o''" "to_lower c = CHR ''w''"
      using token_capture by blast
    have "trim [a, b, c] = [a, b, c]" using token_letters(2) [OF g(2)] token_letters(3) [OF g(4)]
      by (simp add: trim_def)
    then have av: "av = [a, b, c]" using assms(1) None Some g(1)
      by (simp add: extract_available_v2_def or_match_def bindE_def capture_of_def)
    show ?thesis unfolding av test_now using g(2-4) by simp
  next
    case n: None
    then have "js_match t re_available_date_v2 = None" using assms(2) None by (simp add: worded_date_v2_def)
    then have "av = ''Contact for availability''" using assms(1) None n
      by (simp add: extract_available_v2_def or_match_def)
    then show ?thesis using default_availability by (simp add: test_now)
  qed
qed

lemma token_available: "map to_lower av = ''now'' \<Longrightarrow> js_test re_now av"
  by (simp add: test_now)

text \<open>
  Claim C3, amended. In both versions the status is either \<open>available\<close> or
  \<open>coming-soon\<close>, and two records with the same availability have the same status.
  In version 1 the status is \<open>available\<close> exactly when the availability is the token
  \<open>Now\<close>. In version 2 the availability keeps the letter case of the page; the status
  is \<open>available\<close> whenever the availability is the token in any letter case, and it
  is \<open>available\<close> exactly when the availability is the token in any letter case for
  every record whose availability is the token, a date written with slashes, the
  default text, or a worded date in which the letters of the token do not occur
  in sequence. Nothing is stated about the status of a worded date in which they
  occur.
\<close>

theorem status_from_availability:
  "(extractListingData cardEl uuid = Inr la \<longrightarrow>
      (status la = ''available'') = (available la = ''Now'') \<and>
      (status la \<noteq> ''available'' \<longrightarrow> status la = ''coming-soon'') \<and>
      (extractListingData cardElb uuidb = Inr lc \<and> available lc = available la \<longrightarrow> status lc = status la)) \<and>
   (parseDetailPage doc uuid = Inr lb \<longrightarrow>
      (map to_lower (available lb) = ''now'' \<longrightarrow> status lb = ''available'') \<and>
      (\<not> worded_date_v2 (body_text doc) \<or> \<not> str_includes (map to_lower (available lb)) ''now'' \<longrightarrow>
         (status lb = ''available'') = (map to_lower (available lb) = ''now'')) \<and>
      (status lb \<noteq> ''available'' \<longrightarrow> status lb = ''coming-soon'') \<and>
      (parseDetailPage docb uuidb = Inr ld \<and> available ld = available lb \<longrightarrow> status ld = status lb))"
proof -
  have v1: "status l = status_v1 (available l)" if "extractListingData e u = Inr l" for e u l
    using extractListingData_fields(7) [OF that] .
  have v2: "status l = status_v2 (available l)" if "parseDetailPage d u = Inr l" for d u l
    using parseDetailPage_fields(7) [OF that refl] .
  have t: "js_test re_now (available lb) = (map to_lower (available lb) = ''now'')"
    if "parseDetailPage doc uuid = Inr lb" "\<not> worded_date_v2 (body_text doc)"
    using token_status [of "body_text doc" "available lb"] parseDetailPage_fields(6) [OF that(1) refl] that(2)
    by (simp add: body_text_def)
  have n: "js_test re_now av = (map to_lower av = ''now'')"
    if "\<not> str_includes (map to_lower av) ''now''" for av
    using that by (auto simp: test_now)
  show ?thesis
    using v1 [of cardEl uuid la] v1 [of cardElb uuidb lc] v2 [of doc uuid lb] v2 [of docb uuidb ld] t
      token_available [of "available lb"] n [of "available lb"]
    by (auto simp: status_v1_def status_v2_def)
qed

text \<open>
  Claim C3 as stated fails in version 2: the page text \<open>Available now\<close> gives the
  availability \<open>now\<close>, which is not the token \<open>Now\<close> letter for letter, and the status
  \<open>available\<close>. The second record is a worded date in which the letters of the token
  occur, which the amended claim leaves open: the test of line 703 finds them
  inside its word.
\<close>

theorem status_from_availability_counterexample:
  "parseDetailPage (page [Text ''Available now'']) ''ab12'' = Inr
     \<lparr>lid = ''ab12'', title = ''Listing ab12'', address = None, city = None, ptype = ''Commercial'',
      rent = None, sqft = None, rentPerSF = None, description = [],
      available = ''now'', status = ''available'', imageUrl = None,
      detailUrl = ''https://greyrockcommercial.appfolio.com/listings/detail/ab12'',
      applyUrl = ''https://greyrockcommercial.appfolio.com/listings/rental_applications/new?listable_uid=ab12&source=Website'',
      leaseType = None, utilities = None, imageUrls = []\<rparr> \<and>
   parseDetailPage (page [Text ''Available Snow 5, 2026'']) ''ab12'' = Inr
     \<lparr>lid = ''ab12'', title = ''Listing ab12'', address = None, city = None, ptype = ''Commercial'',
      rent = None, sqft = None, rentPerSF = None, description = [],
      available = ''Snow 5, 2026'', status = ''available'', imageUrl = None,
      detailUrl = ''https://greyrockcommercial.appfolio.com/listings/detail/ab12'',
      applyUrl = ''https://greyrockcommercial.appfolio.com/listings/rental_applications/new?listable_uid=ab12&source=Website'',
      leaseType = None, utilities = None, imageUrls = []\<rparr>"
  by code_simp

theorem status_from_availability_witness:
  "extractListingData (Element ''li'' [] [Text ''Available NOW'']) ''ab12'' = Inr
     \<lparr>lid = ''ab12'', title = ''Listing ab12'', address = None, city = None, ptype = ''Commercial'',
      rent = None, sqft = None, rentPerSF = None, description = [],
      available = ''Now'', status = ''available'', imageUrl = None,
      detailUrl = ''https://greyrockcommercial.appfolio.com/listings/detail/ab12'',
      applyUrl = ''https://greyrockcommercial.appfolio.com/listings/rental_applications/new?listable_uid=ab12&source=Website''\<rparr> \<and>
   extractListingData (Element ''li'' [] [Text ''available now!'']) ''cd34'' = Inr
     \<lparr>lid = ''cd34'', title = ''Listing cd34'', address = None, city = None, ptype = ''Commercial'',
      rent = None, sqft = None, rentPerSF = None, description = [],
      available = ''Now'', status = ''available'', imageUrl = None,
      detailUrl = ''https://greyrockcommercial.appfolio.com/listings/detail/cd34'',
      applyUrl = ''https://greyrockcommercial.appfolio.com/listings/rental_applications/new?listable_uid=cd34&source=Website''\<rparr> \<and>
   parseDetailPage (page [Text ''Available now'']) ''ab12'' = Inr
     \<lparr>lid = ''ab12'', title = ''Listing ab12'', address = None, city = None, ptype = ''Commercial'',
      rent = None, sqft = None, rentPerSF = None, description = [],
      available = ''now'', status = ''available'', imageUrl = None,
      detailUrl = ''https://greyrockcommercial.appfolio.com/listings/detail/ab12'',
      applyUrl = ''https://greyrockcommercial.appfolio.com/listings/rental_applications/new?listable_uid=ab12&source=Website'',
      leaseType = None, utilities = None, imageUrls = []\<rparr> \<and>
   parseDetailPage (page [Text ''Now available now'']) ''cd34'' = Inr
     \<lparr>lid = ''cd34'', title = ''Listing cd34'', address = None, city = None, ptype = ''Commercial'',
      rent = None, sqft = None, rentPerSF = None, description = [],
      available = ''now'', status = ''available'', imageUrl = None,
      detailUrl = ''https://greyrockcommercial.appfolio.com/listings/detail/cd34'',
      applyUrl = ''https://greyrockcommercial.appfolio.com/listings/rental_applications/new?listable_uid=cd34&source=Website'',
      leaseType = None, utilities = None, imageUrls = []\<rparr> \<and>
   \<not> worded_date_v2 ''Available now'' \<and>
   parseDetailPage (page [Text ''Available 5/1/2026'']) ''ab12'' = Inr
     \<lparr>lid = ''ab12'', title = ''Listing ab12'', address = None, city = None, ptype = ''Commercial'',
      rent = None, sqft = None, rentPerSF = None, description = [],
      available = ''5/1/2026'', status = ''coming-soon'', imageUrl = None,
      detailUrl = ''https://greyrockcommercial.appfolio.com/listings/detail/ab12'',
      applyUrl = ''https://greyrockcommercial.appfolio.com/listings/rental_applications/new?listable_uid=ab12&source=Website'',
      leaseType = None, utilities = None, imageUrls = []\<rparr> \<and>
   \<not> worded_date_v2 ''Available 5/1/2026'' \<and>
   map to_lower ''5/1/2026'' \<noteq> ''now'' \<and>
   parseDetailPage (page [Text ''Available March 5, 2026'']) ''ab12'' = Inr
     \<lparr>lid = ''ab12'', title = ''Listing ab12'', address = None, city = None, ptype = ''Commercial'',
      rent = None, sqft = None, rentPerSF = None, description = [],
      available = ''March 5, 2026'', status = ''coming-soon'', imageUrl = None,
      detailUrl = ''https://greyrockcommercial.appfolio.com/listings/detail/ab12'',
      applyUrl = ''https://greyrockcommercial.appfolio.com/listings/rental_applications/new?listable_uid=ab12&source=Website'',
      leaseType = None, utilities = None, imageUrls = []\<rparr> \<and>
   worded_date_v2 ''Available March 5, 2026'' \<and>
   \<not> str_includes (map to_lower ''March 5, 2026'') ''now''"
  (is "?e1 = Inr ?R1 \<and> ?e2 = Inr ?R2 \<and> ?e3 = Inr ?R3 \<and> ?e4 = Inr ?R4 \<and> ?W1 \<and> ?e5 = Inr ?R5 \<and> ?W2 \<and> ?N \<and>
       ?e6 = Inr ?R6 \<and> ?W3 \<and> ?S")
proof -
  have a: "?e1 = Inr ?R1" by code_simp
  have b: "?e2 = Inr ?R2" by code_simp
  have c: "?e3 = Inr ?R3" by code_simp
  have d: "?e4 = Inr ?R4" by code_simp
  have e: "?e5 = Inr ?R5" by code_simp
  have w: ?W1 ?W2 by code_simp+
  have f: "?e6 = Inr ?R6" by code_simp
  have g: ?W3 ?S by code_simp+
  have t: "body_text (page [Text ''Available now'']) = ''Available now''"
    "body_text (page [Text ''Available 5/1/2026'']) = ''Available 5/1/2026''"
    by (simp_all add: body_text_def page_def doc_body_def)
  have "status ?R3 = ''available''" "status ?R4 = status ?R3" "status ?R2 = status ?R1"
    using status_from_availability [where cardEl = "Element ''li'' [] [Text ''Available NOW'']"
        and uuid = "''ab12''" and la = ?R1
        and cardElb = "Element ''li'' [] [Text ''available now!'']" and uuidb = "''cd34''" and lc = ?R2
        and doc = "page [Text ''Available now'']" and lb = ?R3
        and docb = "page [Text ''Now available now'']" and ld = ?R4] a b c d w(1) t(1)
    by simp_all
  moreover have ?N
    using status_from_availability [where cardEl = "Element ''li'' [] [Text ''Available NOW'']"
        and uuid = "''ab12''" and la = ?R1
        and cardElb = "Element ''li'' [] [Text ''available now!'']" and uuidb = "''cd34''" and lc = ?R2
        and doc = "page [Text ''Available 5/1/2026'']" and lb = ?R5
        and docb = "page [Text ''Now available now'']" and ld = ?R4] a b e d w(2) t(2)
    by simp
  moreover have "status ?R6 \<noteq> ''available''"
    using status_from_availability [where cardEl = "Element ''li'' [] [Text ''Available NOW'']"
        and uuid = "''ab12''" and la = ?R1
        and cardElb = "Element ''li'' [] [Text ''available now!'']" and uuidb = "''cd34''" and lc = ?R2
        and doc = "page [Text ''Available March 5, 2026'']" and lb = ?R6
        and docb = "page [Text ''Now available now'']" and ld = ?R4] a b f d g(2)
    by simp
  ultimately show ?thesis using a b c d e f g w by simp
qed


end
